theory Spec2Isabelle
  imports Main "HOL-Library.Char_ord" "HOL-Library.List_Lexorder" "HOL-Library.Sublist"
begin

section \<open>Values, errors and the host platform\<close>

text \<open>
  The TypeScript sources work on values produced by \<^verbatim>\<open>JSON.parse\<close> and cast to the
  contract types without a check, so events are modelled as untyped JavaScript values.
  Strings are byte lists holding UTF-8 text: the byte-wise lexicographic order of
  \<^typ>\<open>string\<close> is then the code-point order, and \<^const>\<open>length\<close> is
  \<^verbatim>\<open>Buffer.byteLength(s, "utf8")\<close>. A finite number is modelled by an integer
  (an integer literal within the safe range); \<open>JNonFinite\<close> stands for the infinities
  that \<^verbatim>\<open>JSON.parse\<close> returns for literals such as \<^verbatim>\<open>1e999\<close>. The keys of an
  object are distinct and kept in insertion order.
\<close>

datatype jsval =
    JUndefined
  | JNull
  | JBool bool
  | JNum int
  | JNonFinite
  | JStr string
  | JArr "jsval list"
  | JObj "(string \<times> jsval) list"

text \<open>Every \<^verbatim>\<open>throw\<close> of the sources and every runtime exception they can meet.\<close>

datatype error =
    TypeError
  | NonFiniteNumber
  | UnsupportedValue
  | CryptoError
  | TraceNotFound
  | LockTimeout
  | TraceMismatch
  | ChainHeadMismatch
  | DuplicateEventId
  | ZodError

text \<open>
  Library functions of the host (Node.js) that the repository calls and does not
  implement: they are parameters of the model, and every theorem below that does not fix
  a host holds for each of them. \<open>localeCompare\<close> is \<^verbatim>\<open>String.prototype.localeCompare\<close>,
  \<open>normalizeNFC\<close> is \<^verbatim>\<open>normalize("NFC")\<close>, \<open>sha256Hex\<close> is the hex digest of
  \<^verbatim>\<open>createHash("sha256")\<close>, \<open>ed25519Sign\<close> is \<^verbatim>\<open>sign\<close> of \<^verbatim>\<open>node:crypto\<close> with the
  key loaded from its PEM text and the signature in base64 (\<open>None\<close> when loading the
  key or signing raises), \<open>ed25519Verify\<close> is \<^verbatim>\<open>verify\<close> with the key loaded from its
  PEM text and the signature decoded by \<^verbatim>\<open>Buffer.from(v, "base64")\<close> from the value
  \<open>v\<close> found in the envelope (an error when one of the three calls raises), \<open>jsonParse\<close> is
  \<^verbatim>\<open>JSON.parse\<close> (\<open>None\<close> for a SyntaxError) and \<open>jsonStringify\<close> is
  \<^verbatim>\<open>JSON.stringify\<close>.
\<close>

record host =
  localeCompare :: "string \<Rightarrow> string \<Rightarrow> int"
  normalizeNFC :: "string \<Rightarrow> string"
  sha256Hex :: "string \<Rightarrow> string"
  ed25519Sign :: "string \<Rightarrow> string \<Rightarrow> string option"
  ed25519Verify :: "string \<Rightarrow> string \<Rightarrow> jsval \<Rightarrow> error + bool"
  jsonParse :: "string \<Rightarrow> jsval option"
  jsonStringify :: "jsval \<Rightarrow> string"

definition bindE :: "error + 'a \<Rightarrow> ('a \<Rightarrow> error + 'b) \<Rightarrow> error + 'b" where
  "bindE m f = (case m of Inl e \<Rightarrow> Inl e | Inr v \<Rightarrow> f v)"

fun sequenceE :: "(error + 'a) list \<Rightarrow> error + 'a list" where
  "sequenceE [] = Inr []"
| "sequenceE (r # rs) =
     (case r of
        Inl e \<Rightarrow> Inl e
      | Inr v \<Rightarrow> (case sequenceE rs of Inl e \<Rightarrow> Inl e | Inr vs \<Rightarrow> Inr (v # vs)))"

fun foldE :: "('a \<Rightarrow> 's \<Rightarrow> error + 's) \<Rightarrow> 'a list \<Rightarrow> 's \<Rightarrow> error + 's" where
  "foldE f [] s = Inr s"
| "foldE f (x # xs) s = (case f x s of Inl e \<Rightarrow> Inl e | Inr s' \<Rightarrow> foldE f xs s')"

subsection \<open>JavaScript operations on values\<close>

definition ownProp :: "(string \<times> jsval) list \<Rightarrow> string \<Rightarrow> jsval" where
  "ownProp kvs k = (case map_of kvs k of Some v \<Rightarrow> v | None \<Rightarrow> JUndefined)"

text \<open>
  \<^verbatim>\<open>v.k\<close> for the property names the sources read: a TypeError on \<^verbatim>\<open>null\<close> and
  \<^verbatim>\<open>undefined\<close>, the own property of an object, \<^verbatim>\<open>length\<close> of an array or a
  string, and \<^verbatim>\<open>undefined\<close> otherwise.
\<close>

fun get :: "string \<Rightarrow> jsval \<Rightarrow> error + jsval" where
  "get k JUndefined = Inl TypeError"
| "get k JNull = Inl TypeError"
| "get k (JObj kvs) = Inr (ownProp kvs k)"
| "get k (JArr xs) = Inr (if k = ''length'' then JNum (int (length xs)) else JUndefined)"
| "get k (JStr s) = Inr (if k = ''length'' then JNum (int (length s)) else JUndefined)"
| "get k v = Inr JUndefined"

text \<open>\<^verbatim>\<open>v?.k\<close>: \<^verbatim>\<open>undefined\<close> instead of the TypeError.\<close>

definition getOpt :: "string \<Rightarrow> jsval \<Rightarrow> jsval" where
  "getOpt k v = (case get k v of Inl e \<Rightarrow> JUndefined | Inr w \<Rightarrow> w)"

text \<open>
  \<^verbatim>\<open>a === b\<close>. Two objects or arrays are equal only when they are the same reference;
  the operands compared in the sources come from different parsed lines or from a
  literal, so an object or array operand makes the comparison false.
\<close>

fun strictEq :: "jsval \<Rightarrow> jsval \<Rightarrow> bool" where
  "strictEq (JArr xs) w = False"
| "strictEq (JObj kvs) w = False"
| "strictEq v w = (v = w)"

fun truthy :: "jsval \<Rightarrow> bool" where
  "truthy JUndefined = False"
| "truthy JNull = False"
| "truthy (JBool b) = b"
| "truthy (JNum i) = (i \<noteq> 0)"
| "truthy (JStr s) = (s \<noteq> [])"
| "truthy v = True"

text \<open>\<^verbatim>\<open>a ?? b\<close> with an operand that may raise.\<close>

definition nullish :: "jsval \<Rightarrow> bool" where
  "nullish v = (v = JUndefined \<or> v = JNull)"

subsection \<open>Decimal and JSON text\<close>

fun show_nat :: "nat \<Rightarrow> string" where
  "show_nat n =
     (if n < 10 then [''0123456789'' ! n] else show_nat (n div 10) @ [''0123456789'' ! (n mod 10)])"

declare show_nat.simps [simp del]

definition show_int :: "int \<Rightarrow> string" where
  "show_int i = (if i < 0 then CHR ''-'' # show_nat (nat (- i)) else show_nat (nat i))"

definition hex_digit :: "nat \<Rightarrow> char" where
  "hex_digit n = ''0123456789abcdef'' ! (n mod 16)"

text \<open>
  \<^verbatim>\<open>JSON.stringify\<close> of a string: the quotation mark, the backslash and the control
  characters are escaped, every other byte is copied.
\<close>

definition escape_char :: "char \<Rightarrow> string" where
  "escape_char c =
     (let n = (of_char c :: nat) in
      if n = 34 then [CHR 0x5C, CHR 0x22]
      else if n = 92 then [CHR 0x5C, CHR 0x5C]
      else if n = 8 then [CHR 0x5C, CHR ''b'']
      else if n = 9 then [CHR 0x5C, CHR ''t'']
      else if n = 10 then [CHR 0x5C, CHR ''n'']
      else if n = 12 then [CHR 0x5C, CHR ''f'']
      else if n = 13 then [CHR 0x5C, CHR ''r'']
      else if n < 32 then [CHR 0x5C, CHR ''u'', CHR ''0'', CHR ''0'', hex_digit (n div 16), hex_digit (n mod 16)]
      else [c])"

definition quoteJSON :: "string \<Rightarrow> string" where
  "quoteJSON s = CHR 0x22 # concat (map escape_char s) @ [CHR 0x22]"

fun join :: "string \<Rightarrow> string list \<Rightarrow> string" where
  "join sep [] = []"
| "join sep [x] = x"
| "join sep (x # y # ys) = x @ sep @ join sep (y # ys)"

text \<open>
  \<^verbatim>\<open>o[v]\<close> converts \<open>v\<close> to a property name with ToString: an array prints its items
  joined by commas, \<^verbatim>\<open>null\<close> and \<^verbatim>\<open>undefined\<close> among them as the empty string. (A number
  that is not finite prints as \<^verbatim>\<open>NaN\<close> or as an infinity; no name that is looked up is
  one of these.)
\<close>

fun toPropertyKey :: "jsval \<Rightarrow> string" where
  "toPropertyKey JUndefined = ''undefined''"
| "toPropertyKey JNull = ''null''"
| "toPropertyKey (JBool b) = (if b then ''true'' else ''false'')"
| "toPropertyKey (JNum i) = show_int i"
| "toPropertyKey JNonFinite = ''NaN''"
| "toPropertyKey (JStr s) = s"
| "toPropertyKey (JArr xs) =
     join '','' (map (\<lambda>x. if x = JUndefined \<or> x = JNull then [] else toPropertyKey x) xs)"
| "toPropertyKey (JObj kvs) = ''[object Object]''"

text \<open>
  The names an object literal inherits from \<^verbatim>\<open>Object.prototype\<close>: looking one of them up
  gives a function (the prototype itself for \<^verbatim>\<open>__proto__\<close>), not \<^verbatim>\<open>undefined\<close>.
\<close>

definition objectPrototypeNames :: "string list" where
  "objectPrototypeNames =
     [''constructor'', ''hasOwnProperty'', ''isPrototypeOf'', ''propertyIsEnumerable'',
      ''toLocaleString'', ''toString'', ''valueOf'', ''__proto__'', ''__defineGetter__'',
      ''__defineSetter__'', ''__lookupGetter__'', ''__lookupSetter__'']"

section \<open>Canonicalizer (packages/crypto/src/canonicalize.ts)\<close>

text \<open>
  \<^verbatim>\<open>Array.prototype.sort\<close> with a comparator is stable; it is modelled by a stable
  insertion sort, which returns the same list for every comparator that is a total
  preorder.
\<close>

fun insert_by :: "('a \<Rightarrow> 'a \<Rightarrow> int) \<Rightarrow> 'a \<Rightarrow> 'a list \<Rightarrow> 'a list" where
  "insert_by cmp x [] = [x]"
| "insert_by cmp x (y # ys) = (if cmp x y \<le> 0 then x # y # ys else y # insert_by cmp x ys)"

definition sort_by :: "('a \<Rightarrow> 'a \<Rightarrow> int) \<Rightarrow> 'a list \<Rightarrow> 'a list" where
  "sort_by cmp xs = foldr (insert_by cmp) xs []"

definition canonicalNumber :: "jsval \<Rightarrow> error + string" where
  "canonicalNumber v = (case v of JNum i \<Rightarrow> Inr (show_int i) | _ \<Rightarrow> Inl NonFiniteNumber)"

definition canonicalString :: "host \<Rightarrow> string \<Rightarrow> string" where
  "canonicalString h s = quoteJSON (normalizeNFC h s)"

text \<open>
  The entries of an object after \<^verbatim>\<open>filter\<close> and \<^verbatim>\<open>sort\<close>, each with the canonical
  text of its value (or the error that computing it raises), and the text
  \<^verbatim>\<open>canonicalObject\<close> joins from them. The comparator is the one of the source:
  \<^verbatim>\<open>left.localeCompare(right)\<close> on the keys.
\<close>

definition sortEntries :: "host \<Rightarrow> (string \<times> 'a) list \<Rightarrow> (string \<times> 'a) list" where
  "sortEntries h es = sort_by (\<lambda>l r. localeCompare h (fst l) (fst r)) es"

definition renderEntries :: "host \<Rightarrow> (string \<times> (error + string)) list \<Rightarrow> error + string" where
  "renderEntries h es =
     (case sequenceE (map (\<lambda>e. case snd e of Inl x \<Rightarrow> Inl x
                                 | Inr t \<Rightarrow> Inr (canonicalString h (fst e) @ '':'' @ t)) es) of
        Inl x \<Rightarrow> Inl x
      | Inr ts \<Rightarrow> Inr (''{'' @ join '','' ts @ ''}''))"

text \<open>
  \<^verbatim>\<open>canonicalize\<close> with \<^verbatim>\<open>canonicalArray\<close> and \<^verbatim>\<open>canonicalObject\<close> unfolded into
  it. The values of an object are canonicalised before the sort, which keeps the
  recursion structural; the sort only reorders the entries, so the text and the first
  error raised are those of the source.
\<close>

fun canonicalize :: "host \<Rightarrow> jsval \<Rightarrow> error + string" where
  "canonicalize h JNull = Inr ''null''"
| "canonicalize h (JBool b) = Inr (if b then ''true'' else ''false'')"
| "canonicalize h (JNum i) = canonicalNumber (JNum i)"
| "canonicalize h JNonFinite = canonicalNumber JNonFinite"
| "canonicalize h (JStr s) = Inr (canonicalString h s)"
| "canonicalize h (JArr xs) =
     (case sequenceE (map (canonicalize h) xs) of
        Inl e \<Rightarrow> Inl e
      | Inr ts \<Rightarrow> Inr (''['' @ join '','' ts @ '']''))"
| "canonicalize h (JObj kvs) =
     renderEntries h
       (sortEntries h
          (map (\<lambda>kv. (fst kv, canonicalize h (snd kv)))
             (filter (\<lambda>kv. snd kv \<noteq> JUndefined) kvs)))"
| "canonicalize h JUndefined = Inl UnsupportedValue"

definition canonicalObject :: "host \<Rightarrow> (string \<times> jsval) list \<Rightarrow> error + string" where
  "canonicalObject h kvs = canonicalize h (JObj kvs)"

text \<open>The keys in the order in which \<^verbatim>\<open>canonicalObject\<close> emits them.\<close>

definition emittedKeys :: "host \<Rightarrow> (string \<times> jsval) list \<Rightarrow> string list" where
  "emittedKeys h kvs = map fst (sortEntries h (filter (\<lambda>kv. snd kv \<noteq> JUndefined) kvs))"

text \<open>
  The values on which \<^verbatim>\<open>canonicalize\<close> returns: no number that is not finite, and
  \<^verbatim>\<open>undefined\<close> only as the value of an object key, where it is dropped.
\<close>

fun canonicalizable :: "jsval \<Rightarrow> bool" where
  "canonicalizable JUndefined = False"
| "canonicalizable JNonFinite = False"
| "canonicalizable (JArr xs) = list_all canonicalizable xs"
| "canonicalizable (JObj kvs) =
     list_all (\<lambda>kv. canonicalizable (snd kv)) (filter (\<lambda>kv. snd kv \<noteq> JUndefined) kvs)"
| "canonicalizable v = True"

text \<open>The text \<^verbatim>\<open>canonicalize\<close> returns, where it returns.\<close>

definition canonicalText :: "host \<Rightarrow> jsval \<Rightarrow> string" where
  "canonicalText h v = (case canonicalize h v of Inl e \<Rightarrow> [] | Inr t \<Rightarrow> t)"

text \<open>
  A comparator for examples. It follows \<^verbatim>\<open>localeCompare\<close> under the default (root)
  collation of the host on strings of ASCII letters, the only strings it is used on:
  letters are compared alphabetically whatever their case, and where that comparison
  ties, the first difference in case decides, lower case first.
\<close>

definition lower_char :: "char \<Rightarrow> char" where
  "lower_char c =
     (case map_of (zip ''ABCDEFGHIJKLMNOPQRSTUVWXYZ'' ''abcdefghijklmnopqrstuvwxyz'') c of
        None \<Rightarrow> c
      | Some l \<Rightarrow> l)"

definition asciiLetterCollate :: "string \<Rightarrow> string \<Rightarrow> int" where
  "asciiLetterCollate a b =
     (let la = map lower_char a; lb = map lower_char b in
      if la < lb then - 1
      else if lb < la then 1
      else if b < a then - 1
      else if a < b then 1
      else 0)"

section \<open>Contracts\<close>

datatype policy_profile = Strict | Default | Lenient

datatype trace_status = Running | Succeeded | Failed | Aborted | Tampered

text \<open>
  \<^verbatim>\<open>TraceSession\<close> as \<^verbatim>\<open>TraceStore.saveTrace\<close> writes it and \<^verbatim>\<open>loadTrace\<close> reads it
  back. The head hash and the artifact count are assigned from fields of the appended
  event, so they are values; the other fields keep their declared types.
\<close>

record trace_session =
  ts_schema_version :: string
  ts_trace_id :: string
  ts_status :: trace_status
  head_event_hash :: jsval
  event_count :: int
  artifact_count :: jsval
  ts_policy_profile :: policy_profile

record agent_identity =
  agent_id :: string
  key_id :: string
  public_key :: string
  key_status :: string
  revoked_at :: "string option"

record artifact_descriptor =
  artifact_hash :: string
  hash_algorithm :: string
  media_type :: string
  encoding :: string
  byte_size :: nat
  created_at :: string
  producer_event_id :: string
  storage_uri :: string
  redaction_status :: string
  trace_id :: string
  integrity_verified_at :: string

record artifact_reference =
  ref_trace_id :: string
  ref_producer_event_id :: string
  ref_created_at :: string

record artifact_sidecar = artifact_descriptor +
  references :: "artifact_reference list option"

datatype failure_code =
    SIG_INVALID
  | SIG_MISSING
  | CHAIN_BREAK
  | HASH_MISMATCH
  | ARTIFACT_MISSING
  | ARTIFACT_HASH_MISMATCH
  | CLAIM_UNPROVEN
  | ROLE_POLICY_VIOLATION
  | SCHEMA_INVALID

datatype severity = Critical | High | Medium | Low

datatype check_id =
    CHK_SCHEMA_CONFORMANCE
  | CHK_EVENT_HASH_INTEGRITY
  | CHK_CHAIN_CONTINUITY
  | CHK_SIGNATURE_VALIDITY
  | CHK_KEY_STATUS
  | CHK_ARTIFACT_EXISTENCE
  | CHK_ARTIFACT_HASH_MATCH
  | CHK_CLAIM_EVIDENCE_SUFFICIENCY
  | CHK_ROLE_POLICY_CONFORMANCE
  | CHK_FINALIZATION_INTEGRITY

datatype check_status = Pass | Warning | Fail

datatype verification_status = VerdictPass | VerdictPassWithWarnings | VerdictFail

text \<open>
  The entries of a report. The fields kept are the ones the verifier computes from the
  trace; the message texts (\<^verbatim>\<open>message\<close>, \<^verbatim>\<open>suggested_action\<close>, \<^verbatim>\<open>description\<close>,
  \<^verbatim>\<open>recommended_remediation\<close>), the clock readings (\<^verbatim>\<open>detected_at\<close>,
  \<^verbatim>\<open>elapsed_ms\<close>, \<^verbatim>\<open>verified_at\<close>) and the scope text of a check are left out. An
  optional field is \<open>None\<close> when the builder does not set the key.
\<close>

record verification_failure =
  failure_code :: failure_code
  f_severity :: severity
  f_event_id :: "jsval option"
  f_artifact_hash :: "jsval option"
  verification_step :: check_id

record verification_warning =
  warning_code :: string
  w_severity :: severity
  w_event_id :: "jsval option"

record verification_check =
  check_id :: check_id
  check_status :: check_status

record verification_report =
  report_id :: string
  r_trace_id :: string
  r_schema_version :: string
  verification_status :: verification_status
  checks :: "verification_check list"
  failures :: "verification_failure list"
  warnings :: "verification_warning list"
  metric_event_count :: nat
  metric_artifact_reference_count :: nat
  r_policy_profile :: policy_profile

definition GENESIS_PREV_HASH :: string where
  "GENESIS_PREV_HASH = replicate 64 CHR ''0''"

definition SIGNATURE_ALGORITHM :: string where
  "SIGNATURE_ALGORITHM = ''ed25519''"

definition HASH_ALGORITHM :: string where
  "HASH_ALGORITHM = ''sha256''"

definition SCHEMA_VERSION :: string where
  "SCHEMA_VERSION = ''1.0.0''"

definition eventTypes :: "string list" where
  "eventTypes =
     [''session_initialized'', ''proposal_created'', ''proposal_reviewed'', ''tool_intent_signed'',
      ''tool_execution_started'', ''tool_execution_completed'', ''tool_execution_failed'',
      ''artifact_recorded'', ''claim_issued'', ''claim_challenged'', ''final_statement_signed'',
      ''verification_run_started'', ''verification_run_completed'']"

definition requiredSignedEventTypes :: "string list" where
  "requiredSignedEventTypes =
     [''proposal_created'', ''tool_intent_signed'', ''claim_issued'', ''claim_challenged'',
      ''final_statement_signed'', ''verification_run_completed'']"

definition roles :: "string list" where
  "roles = [''planner'', ''executor'', ''critic'', ''auditor'']"

definition rolePolicy :: "string \<Rightarrow> string list option" where
  "rolePolicy r =
     (if r = ''planner'' then Some [''session_initialized'', ''proposal_created'']
      else if r = ''executor'' then
        Some [''tool_intent_signed'', ''tool_execution_started'', ''tool_execution_completed'',
              ''tool_execution_failed'', ''artifact_recorded'', ''claim_issued'',
              ''final_statement_signed'']
      else if r = ''critic'' then Some [''proposal_reviewed'', ''claim_challenged'']
      else if r = ''auditor'' then Some [''verification_run_started'', ''verification_run_completed'']
      else None)"

subsection \<open>The regular expressions and the zod schemas\<close>

definition in_range :: "nat \<Rightarrow> nat \<Rightarrow> char \<Rightarrow> bool" where
  "in_range lo hi c = (lo \<le> (of_char c :: nat) \<and> (of_char c :: nat) \<le> hi)"

definition is_digit :: "char \<Rightarrow> bool" where
  "is_digit c = in_range 48 57 c"

text \<open>\<^verbatim>\<open>[0-9A-HJKMNP-TV-Z]\<close>\<close>

definition is_ulid_char :: "char \<Rightarrow> bool" where
  "is_ulid_char c =
     (is_digit c \<or> in_range 65 72 c \<or> c = CHR ''J'' \<or> c = CHR ''K'' \<or> c = CHR ''M'' \<or>
      c = CHR ''N'' \<or> in_range 80 84 c \<or> in_range 86 90 c)"

definition ULID_REGEX :: "string \<Rightarrow> bool" where
  "ULID_REGEX s = (length s = 26 \<and> list_all is_ulid_char s)"

definition HEX_64_REGEX :: "string \<Rightarrow> bool" where
  "HEX_64_REGEX s = (length s = 64 \<and> list_all (\<lambda>c. in_range 97 102 c \<or> is_digit c) s)"

definition ISO_UTC_MS_REGEX :: "string \<Rightarrow> bool" where
  "ISO_UTC_MS_REGEX s =
     (length s = 24 \<and> list_all is_digit (take 4 s) \<and> s ! 4 = CHR ''-'' \<and>
      list_all is_digit (take 2 (drop 5 s)) \<and> s ! 7 = CHR ''-'' \<and>
      list_all is_digit (take 2 (drop 8 s)) \<and> s ! 10 = CHR ''T'' \<and>
      list_all is_digit (take 2 (drop 11 s)) \<and> s ! 13 = CHR '':'' \<and>
      list_all is_digit (take 2 (drop 14 s)) \<and> s ! 16 = CHR '':'' \<and>
      list_all is_digit (take 2 (drop 17 s)) \<and> s ! 19 = CHR ''.'' \<and>
      list_all is_digit (take 3 (drop 20 s)) \<and> s ! 23 = CHR ''Z'')"

text \<open>\<^verbatim>\<open>/^[a-z0-9._-]+$/\<close>\<close>

definition ID_REGEX :: "string \<Rightarrow> bool" where
  "ID_REGEX s =
     (s \<noteq> [] \<and>
      list_all (\<lambda>c. in_range 97 122 c \<or> is_digit c \<or> c = CHR ''.'' \<or> c = CHR ''_'' \<or> c = CHR ''-'') s)"

definition CLAIM_ID_REGEX :: "string \<Rightarrow> bool" where
  "CLAIM_ID_REGEX s = (take 6 s = ''claim_'' \<and> ULID_REGEX (drop 6 s))"

definition zString :: "(string \<Rightarrow> bool) \<Rightarrow> jsval \<Rightarrow> bool" where
  "zString p v = (case v of JStr s \<Rightarrow> p s | _ \<Rightarrow> False)"

definition zOptional :: "(jsval \<Rightarrow> bool) \<Rightarrow> jsval \<Rightarrow> bool" where
  "zOptional p v = (if v = JUndefined then True else p v)"

definition zArray :: "(jsval \<Rightarrow> bool) \<Rightarrow> jsval \<Rightarrow> bool" where
  "zArray p v = (case v of JArr xs \<Rightarrow> list_all p xs | _ \<Rightarrow> False)"

definition nonEmpty :: "string \<Rightarrow> bool" where
  "nonEmpty s = (s \<noteq> [])"

definition roleSchema :: "jsval \<Rightarrow> bool" where
  "roleSchema v = zString (\<lambda>s. List.member roles s) v"

definition eventTypeSchema :: "jsval \<Rightarrow> bool" where
  "eventTypeSchema v = zString (\<lambda>s. List.member eventTypes s) v"

definition actorSchema :: "jsval \<Rightarrow> bool" where
  "actorSchema v =
     (case v of
        JObj kvs \<Rightarrow>
          zString ID_REGEX (ownProp kvs ''agent_id'') \<and> roleSchema (ownProp kvs ''role'') \<and>
          zString ID_REGEX (ownProp kvs ''key_id'')
      | _ \<Rightarrow> False)"

definition signatureSchema :: "jsval \<Rightarrow> bool" where
  "signatureSchema v =
     (case v of
        JObj kvs \<Rightarrow>
          ownProp kvs ''algorithm'' = JStr SIGNATURE_ALGORITHM \<and>
          zString nonEmpty (ownProp kvs ''signature_b64'') \<and>
          zString HEX_64_REGEX (ownProp kvs ''signed_bytes_hash'')
      | _ \<Rightarrow> False)"

definition nonnegativeInt :: "jsval \<Rightarrow> bool" where
  "nonnegativeInt v = (case v of JNum i \<Rightarrow> 0 \<le> i | _ \<Rightarrow> False)"

definition artifactDescriptorSchema :: "jsval \<Rightarrow> bool" where
  "artifactDescriptorSchema v =
     (case v of
        JObj kvs \<Rightarrow>
          zString HEX_64_REGEX (ownProp kvs ''artifact_hash'') \<and>
          ownProp kvs ''hash_algorithm'' = JStr HASH_ALGORITHM \<and>
          zString nonEmpty (ownProp kvs ''media_type'') \<and>
          zString nonEmpty (ownProp kvs ''encoding'') \<and>
          nonnegativeInt (ownProp kvs ''byte_size'') \<and>
          zString ISO_UTC_MS_REGEX (ownProp kvs ''created_at'') \<and>
          zString ULID_REGEX (ownProp kvs ''producer_event_id'') \<and>
          zString nonEmpty (ownProp kvs ''storage_uri'') \<and>
          zString (\<lambda>s. List.member [''none'', ''redacted'', ''redacted-with-pointer''] s)
            (ownProp kvs ''redaction_status'') \<and>
          zOptional (zString ULID_REGEX) (ownProp kvs ''trace_id'') \<and>
          zOptional (zString ISO_UTC_MS_REGEX) (ownProp kvs ''integrity_verified_at'')
      | _ \<Rightarrow> False)"

text \<open>\<^verbatim>\<open>protocolEventSchema.safeParse(event).success\<close>; \<^verbatim>\<open>payload\<close> is \<^verbatim>\<open>z.unknown()\<close>.\<close>

definition protocolEventSchema :: "jsval \<Rightarrow> bool" where
  "protocolEventSchema v =
     (case v of
        JObj kvs \<Rightarrow>
          zString nonEmpty (ownProp kvs ''schema_version'') \<and>
          zString ULID_REGEX (ownProp kvs ''trace_id'') \<and>
          zString ULID_REGEX (ownProp kvs ''event_id'') \<and>
          eventTypeSchema (ownProp kvs ''event_type'') \<and>
          zString ISO_UTC_MS_REGEX (ownProp kvs ''created_at'') \<and>
          actorSchema (ownProp kvs ''actor'') \<and>
          zString HEX_64_REGEX (ownProp kvs ''payload_hash'') \<and>
          zString HEX_64_REGEX (ownProp kvs ''prev_event_hash'') \<and>
          zString HEX_64_REGEX (ownProp kvs ''event_hash'') \<and>
          signatureSchema (ownProp kvs ''signature'') \<and>
          zString nonEmpty (ownProp kvs ''payload_type'') \<and>
          zArray (zString CLAIM_ID_REGEX) (ownProp kvs ''claims'') \<and>
          zArray artifactDescriptorSchema (ownProp kvs ''artifacts'')
      | _ \<Rightarrow> False)"

section \<open>The files under COC_HOME\<close>

text \<open>
  The part of the file system the core reads and writes, keyed by what names each file:
  \<^verbatim>\<open>traces/<id>/trace.meta.json\<close>, \<^verbatim>\<open>traces/<id>/events.jsonl\<close> and
  \<^verbatim>\<open>traces/<id>/.append.lock\<close> by the trace id, the identities of
  \<^verbatim>\<open>keys/registry.json\<close>, \<^verbatim>\<open><hash>.blob\<close> and \<^verbatim>\<open><hash>.meta.json\<close> by the hash in
  their sharded path, and the reports by trace id and report id. A metadata file, the
  registry and a sidecar hold the JSON text of a value of their type, as the writers of
  the repository produce it.
\<close>

record coc_home =
  trace_meta :: "string \<rightharpoonup> trace_session"
  events_file :: "string \<rightharpoonup> string"
  lock_files :: "string set"
  identities :: "agent_identity list"
  blob_files :: "string \<rightharpoonup> string"
  meta_files :: "string \<rightharpoonup> artifact_sidecar"
  report_files :: "(string \<times> string) \<rightharpoonup> verification_report"
  latest_report :: "string \<rightharpoonup> verification_report"

section \<open>Ledger (packages/store/src/ledger.ts)\<close>



text \<open>
  The white space that \<^verbatim>\<open>String.prototype.trim\<close> strips, which is WhiteSpace and
  LineTerminator of ECMAScript: U+0009 to U+000D and U+0020, one byte each; U+00A0, the
  bytes C2 A0; and, three bytes each, U+1680 (E1 9A 80), U+2000 to U+200A (E2 80 80 to
  E2 80 8A), U+2028 and U+2029 (E2 80 A8, E2 80 A9), U+202F (E2 80 AF), U+205F
  (E2 81 9F), U+3000 (E3 80 80) and U+FEFF (EF BB BF).
\<close>

definition is_space :: "char \<Rightarrow> bool" where
  "is_space c = (in_range 9 13 c \<or> c = CHR '' '')"

definition is_space3 :: "char \<Rightarrow> char \<Rightarrow> char \<Rightarrow> bool" where
  "is_space3 c d e =
     ((c = CHR 0xE1 \<and> d = CHR 0x9A \<and> e = CHR 0x80) \<or>
      (c = CHR 0xE2 \<and> d = CHR 0x80 \<and>
         (in_range 0x80 0x8A e \<or> e = CHR 0xA8 \<or> e = CHR 0xA9 \<or> e = CHR 0xAF)) \<or>
      (c = CHR 0xE2 \<and> d = CHR 0x81 \<and> e = CHR 0x9F) \<or>
      (c = CHR 0xE3 \<and> d = CHR 0x80 \<and> e = CHR 0x80) \<or>
      (c = CHR 0xEF \<and> d = CHR 0xBB \<and> e = CHR 0xBF))"

text \<open>\<^verbatim>\<open>!s.trim()\<close>: the string holds white space only.\<close>

fun is_blank :: "string \<Rightarrow> bool" where
  "is_blank [] = True"
| "is_blank (c # cs) =
     (if is_space c then is_blank cs
      else
        (case cs of
           [] \<Rightarrow> False
         | d # r \<Rightarrow>
             if c = CHR 0xC2 \<and> d = CHR 0xA0 then is_blank r
             else
               (case r of
                  [] \<Rightarrow> False
                | e # r' \<Rightarrow> if is_space3 c d e then is_blank r' else False)))"

text \<open>\<^verbatim>\<open>raw.split("\n")\<close>\<close>

fun split_lines :: "string \<Rightarrow> string list" where
  "split_lines [] = [[]]"
| "split_lines (c # cs) =
     (if c = CHR 0x0A then [] # split_lines cs
      else (case split_lines cs of [] \<Rightarrow> [[c]] | l # ls \<Rightarrow> (c # l) # ls))"

text \<open>
  The loop of \<^verbatim>\<open>readEvents\<close> over the lines: the events parsed, \<^verbatim>\<open>validByteLength\<close>
  and \<^verbatim>\<open>malformedFound\<close>.
\<close>

fun scanLines :: "host \<Rightarrow> string list \<Rightarrow> jsval list \<times> nat \<times> bool" where
  "scanLines h [] = ([], 0, False)"
| "scanLines h (l # ls) =
     (if is_blank l then
        (case scanLines h ls of (parsed, valid, malformed) \<Rightarrow> (parsed, length l + 1 + valid, malformed))
      else
        (case jsonParse h l of
           None \<Rightarrow> ([], 0, True)
         | Some event \<Rightarrow>
             (case scanLines h ls of
                (parsed, valid, malformed) \<Rightarrow> (event # parsed, length l + 1 + valid, malformed))))"

text \<open>\<^verbatim>\<open>truncateSync(path, len)\<close>: a shorter file is cut, a longer one padded with zero bytes.\<close>

definition truncateSync :: "nat \<Rightarrow> string \<Rightarrow> string" where
  "truncateSync len raw = take len raw @ replicate (len - length raw) (CHR 0x00)"

definition readEvents :: "host \<Rightarrow> coc_home \<Rightarrow> string \<Rightarrow> bool \<Rightarrow> jsval list \<times> coc_home" where
  "readEvents h s traceId recoverMalformedTail =
     (case events_file s traceId of
        None \<Rightarrow> ([], s)
      | Some raw \<Rightarrow>
          if is_blank raw then ([], s)
          else
            (case scanLines h (split_lines raw) of
               (parsed, validByteLength, malformedFound) \<Rightarrow>
                 (parsed,
                  if malformedFound \<and> recoverMalformedTail then
                    s\<lparr>events_file := (events_file s)
                         (traceId \<mapsto> truncateSync (nat (max 0 (int validByteLength - 1))) raw)\<rparr>
                  else s)))"

text \<open>\<^verbatim>\<open>events.some((existing) => existing.event_id === event.event_id)\<close>\<close>

fun someSameEventId :: "jsval \<Rightarrow> jsval list \<Rightarrow> error + bool" where
  "someSameEventId eid [] = Inr False"
| "someSameEventId eid (existing # rest) =
     (case get ''event_id'' existing of
        Inl e \<Rightarrow> Inl e
      | Inr xid \<Rightarrow> if strictEq xid eid then Inr True else someSameEventId eid rest)"

text \<open>\<^verbatim>\<open>a += b\<close> on counts: numbers add; any other operand leaves no count behind.\<close>

definition jsAdd :: "jsval \<Rightarrow> jsval \<Rightarrow> jsval" where
  "jsAdd a b = (case (a, b) of (JNum i, JNum j) \<Rightarrow> JNum (i + j) | _ \<Rightarrow> JNonFinite)"

text \<open>The body that \<^verbatim>\<open>appendEvent\<close> runs under the trace lock.\<close>

definition appendLocked :: "host \<Rightarrow> coc_home \<Rightarrow> string \<Rightarrow> jsval \<Rightarrow> (error + jsval) \<times> coc_home" where
  "appendLocked h s traceId event =
     (case trace_meta s traceId of
        None \<Rightarrow> (Inl TraceNotFound, s)
      | Some session \<Rightarrow>
          (case get ''trace_id'' event of
             Inl e \<Rightarrow> (Inl e, s)
           | Inr etid \<Rightarrow>
               if \<not> strictEq etid (JStr traceId) then (Inl TraceMismatch, s)
               else if \<not> strictEq (getOpt ''prev_event_hash'' event) (head_event_hash session)
               then (Inl ChainHeadMismatch, s)
               else
                 (case readEvents h s traceId True of
                    (events, s1) \<Rightarrow>
                      (case someSameEventId (getOpt ''event_id'' event) events of
                         Inl e \<Rightarrow> (Inl e, s1)
                       | Inr True \<Rightarrow> (Inl DuplicateEventId, s1)
                       | Inr False \<Rightarrow>
                           (let line = jsonStringify h event @ [CHR 0x0A];
                                old = (case events_file s1 traceId of None \<Rightarrow> [] | Some raw \<Rightarrow> raw);
                                s2 = s1\<lparr>events_file := (events_file s1)(traceId \<mapsto> old @ line)\<rparr>
                            in (case bindE (get ''artifacts'' event) (get ''length'') of
                                  Inl e \<Rightarrow> (Inl e, s2)
                                | Inr n \<Rightarrow>
                                    (let session' = session
                                           \<lparr>head_event_hash := getOpt ''event_hash'' event,
                                            event_count := event_count session + 1,
                                            artifact_count := jsAdd (artifact_count session) n\<rparr>
                                     in (Inr event,
                                         s2\<lparr>trace_meta := (trace_meta s2)
                                              (ts_trace_id session' \<mapsto> session')\<rparr>))))))))"

text \<open>
  \<^verbatim>\<open>withTraceLock\<close> around it. The lock file is created exclusively; when it exists the
  caller polls for five seconds and gives up, and nothing else runs in this sequential
  model, so an existing lock file is a timeout. The \<^verbatim>\<open>finally\<close> block removes the
  lock file after the body, whether it returned or raised.
\<close>

definition appendEvent :: "host \<Rightarrow> coc_home \<Rightarrow> string \<Rightarrow> jsval \<Rightarrow> (error + jsval) \<times> coc_home" where
  "appendEvent h s traceId event =
     (if traceId \<in> lock_files s then (Inl LockTimeout, s)
      else
        (case appendLocked h (s\<lparr>lock_files := insert traceId (lock_files s)\<rparr>) traceId event of
           (r, s') \<Rightarrow> (r, s'\<lparr>lock_files := lock_files s' - {traceId}\<rparr>)))"

section \<open>Read API (the GET handlers on a trace's events)\<close>

fun filterE :: "(jsval \<Rightarrow> error + bool) \<Rightarrow> jsval list \<Rightarrow> error + jsval list" where
  "filterE p [] = Inr []"
| "filterE p (x # xs) =
     (case p x of
        Inl e \<Rightarrow> Inl e
      | Inr b \<Rightarrow> (case filterE p xs of Inl e \<Rightarrow> Inl e | Inr ys \<Rightarrow> Inr (if b then x # ys else ys)))"

text \<open>
  \<^verbatim>\<open>GET /api/traces/:trace_id/events\<close>, with the cursor and the limit already decoded
  to numbers and a filter given as \<open>None\<close> when the query leaves it out or empty. The
  response lists each event of the page with the offset its cursor encodes, and the next
  offset.
\<close>

definition getTraceEvents ::
  "host \<Rightarrow> coc_home \<Rightarrow> string \<Rightarrow> nat \<Rightarrow> nat \<Rightarrow> string option \<Rightarrow> string option
     \<Rightarrow> (error + (nat \<times> jsval) list \<times> nat option) \<times> coc_home" where
  "getTraceEvents h s traceId offset limit typeFilter roleFilter =
     (case readEvents h s traceId True of
        (events, s') \<Rightarrow>
          (bindE (case typeFilter of
                    None \<Rightarrow> Inr events
                  | Some ty \<Rightarrow>
                      filterE (\<lambda>event. bindE (get ''event_type'' event) (\<lambda>t. Inr (strictEq t (JStr ty)))) events)
             (\<lambda>byType.
                bindE (case roleFilter of
                         None \<Rightarrow> Inr byType
                       | Some role \<Rightarrow>
                           filterE (\<lambda>event. bindE (get ''actor'' event) (\<lambda>a.
                                      bindE (get ''role'' a) (\<lambda>r. Inr (strictEq r (JStr role))))) byType)
                  (\<lambda>selected.
                     let items = take limit (drop offset selected);
                         nextOffset = offset + length items
                     in Inr (zip (map (\<lambda>i. offset + i + 1) [0..<length items]) items,
                             if nextOffset < length selected then Some nextOffset else None))),
           s'))"

fun findByEventId :: "string \<Rightarrow> jsval list \<Rightarrow> error + jsval option" where
  "findByEventId eid [] = Inr None"
| "findByEventId eid (entry # rest) =
     (case get ''event_id'' entry of
        Inl e \<Rightarrow> Inl e
      | Inr xid \<Rightarrow> if strictEq xid (JStr eid) then Inr (Some entry) else findByEventId eid rest)"

text \<open>\<^verbatim>\<open>GET /api/traces/:trace_id/events/:event_id\<close>; \<open>None\<close> is the 404 reply.\<close>

definition getTraceEvent ::
  "host \<Rightarrow> coc_home \<Rightarrow> string \<Rightarrow> string \<Rightarrow> (error + jsval option) \<times> coc_home" where
  "getTraceEvent h s traceId eventId =
     (case readEvents h s traceId True of (events, s') \<Rightarrow> (findByEventId eventId events, s'))"

section \<open>Artifact store (ArtifactStore.writeArtifact)\<close>

record write_artifact_input =
  in_trace_id :: string
  in_producer_event_id :: string
  in_bytes :: string
  in_media_type :: string
  in_encoding :: string
  in_redaction_status :: "string option"

definition storageUri :: "string \<Rightarrow> string" where
  "storageUri hash =
     ''artifacts/sha256/'' @ take 2 hash @ ''/'' @ take 2 (drop 2 hash) @ ''/'' @ hash @ ''.blob''"

text \<open>
  \<^verbatim>\<open>writeArtifact\<close>; \<open>now\<close> is the reading of \<^verbatim>\<open>nowIso()\<close> it takes. The result is the
  descriptor returned and the files afterwards.
\<close>

definition writeArtifact ::
  "host \<Rightarrow> coc_home \<Rightarrow> string \<Rightarrow> write_artifact_input \<Rightarrow> artifact_descriptor \<times> coc_home" where
  "writeArtifact h s now inp =
     (let artifactHash = sha256Hex h (in_bytes inp);
          s1 = (case blob_files s artifactHash of
                  None \<Rightarrow> s\<lparr>blob_files := (blob_files s)(artifactHash \<mapsto> in_bytes inp)\<rparr>
                | Some existing \<Rightarrow> s);
          descriptor =
            \<lparr>artifact_hash = artifactHash, hash_algorithm = HASH_ALGORITHM,
             media_type = in_media_type inp, encoding = in_encoding inp,
             byte_size = length (in_bytes inp), created_at = now,
             producer_event_id = in_producer_event_id inp, storage_uri = storageUri artifactHash,
             redaction_status = (case in_redaction_status inp of None \<Rightarrow> ''none'' | Some r \<Rightarrow> r),
             trace_id = in_trace_id inp, integrity_verified_at = now\<rparr>;
          newRef = \<lparr>ref_trace_id = in_trace_id inp, ref_producer_event_id = in_producer_event_id inp,
                    ref_created_at = now\<rparr>
      in case meta_files s1 artifactHash of
           None \<Rightarrow>
             (descriptor,
              s1\<lparr>meta_files := (meta_files s1)
                   (artifactHash \<mapsto> artifact_descriptor.extend descriptor
                                      (artifact_sidecar.fields (Some [newRef])))\<rparr>)
         | Some current \<Rightarrow>
             (let refs = (case references current of None \<Rightarrow> [] | Some rs \<Rightarrow> rs);
                  alreadyLinked =
                    list_ex (\<lambda>entry. ref_trace_id entry = in_trace_id inp \<and>
                                      ref_producer_event_id entry = in_producer_event_id inp) refs;
                  s2 = (if \<not> alreadyLinked then
                          s1\<lparr>meta_files := (meta_files s1)
                               (artifactHash \<mapsto> current\<lparr>references := Some (refs @ [newRef])\<rparr>)\<rparr>
                        else s1)
              in (descriptor\<lparr>created_at := created_at current, byte_size := byte_size current,
                              media_type := media_type current, encoding := encoding current\<rparr>,
                  s2)))"

text \<open>A sequence of writes, each with its clock reading: the descriptors returned, in order.\<close>

fun writeArtifacts ::
  "host \<Rightarrow> coc_home \<Rightarrow> (string \<times> write_artifact_input) list \<Rightarrow> artifact_descriptor list \<times> coc_home" where
  "writeArtifacts h s [] = ([], s)"
| "writeArtifacts h s (w # ws) =
     (case writeArtifact h s (fst w) (snd w) of
        (d, s') \<Rightarrow> (case writeArtifacts h s' ws of (ds, s'') \<Rightarrow> (d # ds, s'')))"

section \<open>Signing and event hashes (packages/crypto)\<close>

definition signedFields :: "string list" where
  "signedFields =
     [''schema_version'', ''trace_id'', ''event_id'', ''event_type'', ''created_at'', ''actor'',
      ''payload_hash'', ''payload_type'', ''claims'', ''artifacts'', ''prev_event_hash'']"

definition extractSignedPayload :: "jsval \<Rightarrow> error + jsval" where
  "extractSignedPayload event =
     bindE (sequenceE (map (\<lambda>field. get field event) signedFields))
       (\<lambda>vs. Inr (JObj (zip signedFields vs)))"

definition canonicalSignedBytes :: "host \<Rightarrow> jsval \<Rightarrow> error + string" where
  "canonicalSignedBytes h event = bindE (extractSignedPayload event) (canonicalize h)"

text \<open>
  \<^verbatim>\<open>const { k: _, ...rest } = v\<close>: a TypeError on \<^verbatim>\<open>null\<close> and \<^verbatim>\<open>undefined\<close>; the
  own enumerable properties but \<open>k\<close> otherwise, which for an array or a string are its
  indices.
\<close>

definition indexed :: "jsval list \<Rightarrow> (string \<times> jsval) list" where
  "indexed xs = zip (map show_nat [0..<length xs]) xs"

fun restWithout :: "string \<Rightarrow> jsval \<Rightarrow> error + jsval" where
  "restWithout k JUndefined = Inl TypeError"
| "restWithout k JNull = Inl TypeError"
| "restWithout k (JObj kvs) = Inr (JObj (filter (\<lambda>kv. fst kv \<noteq> k) kvs))"
| "restWithout k (JArr xs) = Inr (JObj (filter (\<lambda>kv. fst kv \<noteq> k) (indexed xs)))"
| "restWithout k (JStr s) = Inr (JObj (filter (\<lambda>kv. fst kv \<noteq> k) (indexed (map (\<lambda>c. JStr [c]) s))))"
| "restWithout k v = Inr (JObj [])"

definition computeEventHash :: "host \<Rightarrow> jsval \<Rightarrow> error + string" where
  "computeEventHash h event =
     bindE (restWithout ''event_hash'' event)
       (\<lambda>eventWithoutHash. bindE (canonicalize h eventWithoutHash) (\<lambda>bytes. Inr (sha256Hex h bytes)))"

definition hashCanonical :: "host \<Rightarrow> jsval \<Rightarrow> error + string" where
  "hashCanonical h v = bindE (canonicalize h v) (\<lambda>bytes. Inr (sha256Hex h bytes))"

definition signBytes :: "host \<Rightarrow> string \<Rightarrow> string \<Rightarrow> error + jsval" where
  "signBytes h privateKeyPem bytes =
     (case ed25519Sign h privateKeyPem bytes of
        None \<Rightarrow> Inl CryptoError
      | Some sig \<Rightarrow>
          Inr (JObj [(''algorithm'', JStr SIGNATURE_ALGORITHM), (''signature_b64'', JStr sig),
                     (''signed_bytes_hash'', JStr (sha256Hex h bytes))]))"

text \<open>\<^verbatim>\<open>verifyBytes\<close>, called with an envelope that is truthy.\<close>

definition verifyBytes :: "host \<Rightarrow> string \<Rightarrow> string \<Rightarrow> jsval \<Rightarrow> error + bool" where
  "verifyBytes h publicKeyPem bytes signatureEnvelope =
     (if \<not> strictEq (getOpt ''algorithm'' signatureEnvelope) (JStr SIGNATURE_ALGORITHM) then Inr False
      else if \<not> strictEq (getOpt ''signed_bytes_hash'' signatureEnvelope) (JStr (sha256Hex h bytes))
      then Inr False
      else ed25519Verify h publicKeyPem bytes (getOpt ''signature_b64'' signatureEnvelope))"

section \<open>Event factory (packages/protocol/src/event-factory.ts)\<close>

text \<open>
  The input of \<^verbatim>\<open>buildSignedEvent\<close> with \<^verbatim>\<open>event_id\<close>, \<^verbatim>\<open>created_at\<close>, \<^verbatim>\<open>claims\<close> and
  \<^verbatim>\<open>artifacts\<close> already defaulted (a fresh ULID, the clock, the empty lists).
\<close>

record build_event_input =
  bi_trace_id :: string
  bi_event_type :: string
  bi_actor :: jsval
  bi_payload_type :: string
  bi_payload :: jsval
  bi_claims :: "string list"
  bi_artifacts :: "jsval list"
  bi_prev_event_hash :: string
  bi_private_key_pem :: string
  bi_created_at :: string
  bi_event_id :: string

definition unsignedFields :: "host \<Rightarrow> build_event_input \<Rightarrow> error + (string \<times> jsval) list" where
  "unsignedFields h inp =
     bindE (hashCanonical h (bi_payload inp))
       (\<lambda>payloadHash.
          Inr [(''schema_version'', JStr SCHEMA_VERSION), (''trace_id'', JStr (bi_trace_id inp)),
               (''event_id'', JStr (bi_event_id inp)), (''event_type'', JStr (bi_event_type inp)),
               (''created_at'', JStr (bi_created_at inp)), (''actor'', bi_actor inp),
               (''payload_hash'', JStr payloadHash),
               (''prev_event_hash'', JStr (bi_prev_event_hash inp)),
               (''payload_type'', JStr (bi_payload_type inp)), (''payload'', bi_payload inp),
               (''claims'', JArr (map JStr (bi_claims inp))),
               (''artifacts'', JArr (bi_artifacts inp))])"

definition buildSignedEvent :: "host \<Rightarrow> build_event_input \<Rightarrow> error + jsval" where
  "buildSignedEvent h inp =
     bindE (unsignedFields h inp)
       (\<lambda>unsigned.
          bindE (canonicalSignedBytes h (JObj unsigned))
            (\<lambda>bytes.
               bindE (signBytes h (bi_private_key_pem inp) bytes)
                 (\<lambda>signature.
                    let withSignature = unsigned @ [(''signature'', signature)] in
                    bindE (computeEventHash h (JObj withSignature))
                      (\<lambda>eventHash. Inr (JObj (withSignature @ [(''event_hash'', JStr eventHash)]))))))"

section \<open>Verifier (packages/verifier/src/verifier.ts)\<close>

record verify_input =
  vi_trace_id :: string
  vi_policy_profile :: "policy_profile option"
  vi_write_reports :: "bool option"
  vi_report_id :: string
  allow_incomplete_finalization :: bool

text \<open>
  What the checks accumulate: the three lists of the report and the sets that later
  checks read. A \<^verbatim>\<open>Set\<close> is the list of its members in insertion order.
\<close>

record vstate =
  v_failures :: "verification_failure list"
  v_warnings :: "verification_warning list"
  v_checks :: "verification_check list"
  signatureValidEvents :: "jsval list"
  existingArtifacts :: "jsval list"
  artifactHashValid :: "jsval list"

definition initialState :: vstate where
  "initialState =
     \<lparr>v_failures = [], v_warnings = [], v_checks = [], signatureValidEvents = [],
      existingArtifacts = [], artifactHashValid = []\<rparr>"

text \<open>\<^verbatim>\<open>failure({...})\<close>: an id that is falsy leaves its key out.\<close>

definition failure :: "failure_code \<Rightarrow> severity \<Rightarrow> check_id \<Rightarrow> jsval \<Rightarrow> jsval \<Rightarrow> verification_failure" where
  "failure code sev chk eventId artifactHash =
     \<lparr>failure_code = code, f_severity = sev,
      f_event_id = (if truthy eventId then Some eventId else None),
      f_artifact_hash = (if truthy artifactHash then Some artifactHash else None),
      verification_step = chk\<rparr>"

definition warning :: "string \<Rightarrow> severity \<Rightarrow> jsval \<Rightarrow> verification_warning" where
  "warning code sev eventId =
     \<lparr>warning_code = code, w_severity = sev,
      w_event_id = (if truthy eventId then Some eventId else None)\<rparr>"

definition pushFailure :: "verification_failure \<Rightarrow> vstate \<Rightarrow> vstate" where
  "pushFailure f st = st\<lparr>v_failures := v_failures st @ [f]\<rparr>"

definition pushWarning :: "verification_warning \<Rightarrow> vstate \<Rightarrow> vstate" where
  "pushWarning w st = st\<lparr>v_warnings := v_warnings st @ [w]\<rparr>"

definition stepFailed :: "check_id \<Rightarrow> vstate \<Rightarrow> bool" where
  "stepFailed chk st = list_ex (\<lambda>entry. verification_step entry = chk) (v_failures st)"

text \<open>\<^verbatim>\<open>startCheck\<close>: run the operation and record the check with the status it returns.\<close>

definition startCheck ::
  "check_id \<Rightarrow> (vstate \<Rightarrow> error + vstate) \<Rightarrow> (vstate \<Rightarrow> check_status) \<Rightarrow> vstate \<Rightarrow> error + vstate" where
  "startCheck chk operation status st =
     bindE (operation st)
       (\<lambda>st'. Inr (st'\<lparr>v_checks := v_checks st' @ [\<lparr>check_id = chk, check_status = status st'\<rparr>]\<rparr>))"

definition failOrPass :: "check_id \<Rightarrow> vstate \<Rightarrow> check_status" where
  "failOrPass chk st = (if stepFailed chk st then Fail else Pass)"

text \<open>\<^verbatim>\<open>set.has(v)\<close> and \<^verbatim>\<open>set.add(v)\<close> for a set whose members are primitive values.\<close>

definition setHas :: "jsval list \<Rightarrow> jsval \<Rightarrow> bool" where
  "setHas xs v = list_ex (\<lambda>x. strictEq x v) xs"

definition setAdd :: "jsval \<Rightarrow> jsval list \<Rightarrow> jsval list" where
  "setAdd v xs = (if List.member xs v then xs else xs @ [v])"

definition hasString :: "string list \<Rightarrow> jsval \<Rightarrow> bool" where
  "hasString xs v = (case v of JStr s \<Rightarrow> List.member xs s | _ \<Rightarrow> False)"

subsection \<open>CHK_SCHEMA_CONFORMANCE\<close>

definition schemaStep :: "string \<Rightarrow> jsval \<Rightarrow> jsval list \<times> vstate \<Rightarrow> error + jsval list \<times> vstate" where
  "schemaStep traceId event acc =
     (case acc of
        (seenEventIds, st) \<Rightarrow>
          bindE (get ''event_id'' event)
            (\<lambda>eid.
               if \<not> protocolEventSchema event then
                 Inr (seenEventIds,
                      pushFailure (failure SCHEMA_INVALID Medium CHK_SCHEMA_CONFORMANCE eid JUndefined) st)
               else if setHas seenEventIds eid then
                 Inr (seenEventIds,
                      pushFailure (failure SCHEMA_INVALID Medium CHK_SCHEMA_CONFORMANCE eid JUndefined) st)
               else
                 (let st1 = (if \<not> strictEq (getOpt ''trace_id'' event) (JStr traceId)
                             then pushFailure (failure SCHEMA_INVALID Medium CHK_SCHEMA_CONFORMANCE eid JUndefined) st
                             else st);
                      st2 = (if \<not> eventTypeSchema (getOpt ''event_type'' event)
                             then pushFailure (failure SCHEMA_INVALID Medium CHK_SCHEMA_CONFORMANCE eid JUndefined) st1
                             else st1)
                  in Inr (setAdd eid seenEventIds, st2))))"

definition chkSchemaConformance :: "string \<Rightarrow> jsval list \<Rightarrow> vstate \<Rightarrow> error + vstate" where
  "chkSchemaConformance traceId events =
     startCheck CHK_SCHEMA_CONFORMANCE
       (\<lambda>st. bindE (foldE (schemaStep traceId) events ([], st)) (\<lambda>acc. Inr (snd acc)))
       (failOrPass CHK_SCHEMA_CONFORMANCE)"

subsection \<open>CHK_EVENT_HASH_INTEGRITY\<close>

definition hashStep :: "host \<Rightarrow> jsval \<Rightarrow> vstate \<Rightarrow> error + vstate" where
  "hashStep h event st =
     bindE (restWithout ''event_hash'' event)
       (\<lambda>withoutHash.
          bindE (computeEventHash h withoutHash)
            (\<lambda>recomputed.
               if \<not> strictEq (JStr recomputed) (getOpt ''event_hash'' event) then
                 Inr (pushFailure
                        (failure HASH_MISMATCH Critical CHK_EVENT_HASH_INTEGRITY
                           (getOpt ''event_id'' event) JUndefined) st)
               else Inr st))"

definition chkEventHashIntegrity :: "host \<Rightarrow> jsval list \<Rightarrow> vstate \<Rightarrow> error + vstate" where
  "chkEventHashIntegrity h events =
     startCheck CHK_EVENT_HASH_INTEGRITY (foldE (hashStep h) events)
       (failOrPass CHK_EVENT_HASH_INTEGRITY)"

text \<open>
  The stored \<^verbatim>\<open>event_hash\<close> is not the hash recomputed from the event, by the
  comparison \<^verbatim>\<open>recomputed !== event.event_hash\<close>.
\<close>

definition hashMismatch :: "host \<Rightarrow> jsval \<Rightarrow> bool" where
  "hashMismatch h event =
     (case computeEventHash h event of
        Inl e \<Rightarrow> False
      | Inr recomputed \<Rightarrow> getOpt ''event_hash'' event \<noteq> JStr recomputed)"

subsection \<open>CHK_CHAIN_CONTINUITY\<close>

text \<open>
  The loop over the indices, carrying \<^verbatim>\<open>expectedPrev\<close>: the genesis hash at index 0,
  then \<^verbatim>\<open>events[index - 1]?.event_hash\<close>. It stops at the first mismatch.
\<close>

fun chainLoop :: "jsval \<Rightarrow> jsval list \<Rightarrow> vstate \<Rightarrow> error + vstate" where
  "chainLoop expectedPrev [] st = Inr st"
| "chainLoop expectedPrev (event # rest) st =
     (case get ''prev_event_hash'' event of
        Inl e \<Rightarrow> Inl e
      | Inr prev \<Rightarrow>
          if \<not> strictEq prev expectedPrev then
            Inr (pushFailure
                   (failure CHAIN_BREAK Critical CHK_CHAIN_CONTINUITY (getOpt ''event_id'' event) JUndefined)
                   st)
          else chainLoop (getOpt ''event_hash'' event) rest st)"

definition chkChainContinuity :: "jsval list \<Rightarrow> vstate \<Rightarrow> error + vstate" where
  "chkChainContinuity events =
     startCheck CHK_CHAIN_CONTINUITY (chainLoop (JStr GENESIS_PREV_HASH) events)
       (failOrPass CHK_CHAIN_CONTINUITY)"

subsection \<open>CHK_SIGNATURE_VALIDITY\<close>

definition resolveIdentityByKeyId :: "agent_identity list \<Rightarrow> jsval \<Rightarrow> agent_identity option" where
  "resolveIdentityByKeyId ids keyId = find (\<lambda>identity. strictEq (JStr (key_id identity)) keyId) ids"

definition resolvePublicKeyByKeyId :: "agent_identity list \<Rightarrow> jsval \<Rightarrow> string option" where
  "resolvePublicKeyByKeyId ids keyId = map_option public_key (resolveIdentityByKeyId ids keyId)"

definition signatureStep :: "host \<Rightarrow> agent_identity list \<Rightarrow> jsval \<Rightarrow> vstate \<Rightarrow> error + vstate" where
  "signatureStep h ids event st =
     bindE (get ''event_type'' event)
       (\<lambda>ety.
          if \<not> hasString requiredSignedEventTypes ety then Inr st
          else if \<not> truthy (getOpt ''signature'' event) then
            Inr (pushFailure
                   (failure SIG_MISSING Critical CHK_SIGNATURE_VALIDITY (getOpt ''event_id'' event) JUndefined)
                   st)
          else
            bindE (bindE (get ''actor'' event) (get ''key_id''))
              (\<lambda>keyId.
                 case resolvePublicKeyByKeyId ids keyId of
                   None \<Rightarrow>
                     Inr (pushFailure
                            (failure SIG_INVALID Critical CHK_SIGNATURE_VALIDITY
                               (getOpt ''event_id'' event) JUndefined) st)
                 | Some publicKey \<Rightarrow>
                     if publicKey = [] then
                       Inr (pushFailure
                              (failure SIG_INVALID Critical CHK_SIGNATURE_VALIDITY
                                 (getOpt ''event_id'' event) JUndefined) st)
                     else
                       bindE (canonicalSignedBytes h event)
                         (\<lambda>bytes.
                            bindE (verifyBytes h publicKey bytes (getOpt ''signature'' event))
                              (\<lambda>valid.
                                 if \<not> valid then
                                   Inr (pushFailure
                                          (failure SIG_INVALID Critical CHK_SIGNATURE_VALIDITY
                                             (getOpt ''event_id'' event) JUndefined) st)
                                 else
                                   Inr (st\<lparr>signatureValidEvents :=
                                            setAdd (getOpt ''event_id'' event) (signatureValidEvents st)\<rparr>)))))"

definition chkSignatureValidity :: "host \<Rightarrow> agent_identity list \<Rightarrow> jsval list \<Rightarrow> vstate \<Rightarrow> error + vstate" where
  "chkSignatureValidity h ids events =
     startCheck CHK_SIGNATURE_VALIDITY (foldE (signatureStep h ids) events)
       (failOrPass CHK_SIGNATURE_VALIDITY)"

subsection \<open>CHK_KEY_STATUS\<close>

text \<open>
  \<^verbatim>\<open>a >= b\<close> against the revocation time, a string: two strings are compared as
  strings; any other left operand is compared as a number with a time stamp, which is
  not a number, and the comparison is false.
\<close>

definition jsGe :: "jsval \<Rightarrow> string \<Rightarrow> bool" where
  "jsGe a b = (case a of JStr s \<Rightarrow> \<not> s < b | _ \<Rightarrow> False)"

definition keyStatusStep :: "agent_identity list \<Rightarrow> jsval \<Rightarrow> vstate \<Rightarrow> error + vstate" where
  "keyStatusStep ids event st =
     bindE (get ''actor'' event)
       (\<lambda>actor.
          bindE (get ''key_id'' actor)
            (\<lambda>keyId.
               case resolveIdentityByKeyId ids keyId of
                 None \<Rightarrow>
                   Inr (pushFailure
                          (failure SCHEMA_INVALID Medium CHK_KEY_STATUS (getOpt ''event_id'' event) JUndefined)
                          st)
               | Some identity \<Rightarrow>
                   if \<not> strictEq (JStr (agent_id identity)) (getOpt ''agent_id'' actor) then
                     Inr (pushFailure
                            (failure SCHEMA_INVALID Medium CHK_KEY_STATUS (getOpt ''event_id'' event) JUndefined)
                            st)
                   else if key_status identity = ''revoked'' \<and>
                           (case revoked_at identity of
                              None \<Rightarrow> False
                            | Some t \<Rightarrow> t \<noteq> [] \<and> jsGe (getOpt ''created_at'' event) t)
                   then
                     Inr (pushFailure
                            (failure SCHEMA_INVALID Medium CHK_KEY_STATUS (getOpt ''event_id'' event) JUndefined)
                            st)
                   else Inr st))"

definition chkKeyStatus :: "agent_identity list \<Rightarrow> jsval list \<Rightarrow> vstate \<Rightarrow> error + vstate" where
  "chkKeyStatus ids events =
     startCheck CHK_KEY_STATUS (foldE (keyStatusStep ids) events) (failOrPass CHK_KEY_STATUS)"

subsection \<open>CHK_ARTIFACT_EXISTENCE\<close>

text \<open>\<^verbatim>\<open>for (const x of v)\<close>: the items of an array, the characters of a string.\<close>

fun iterate :: "jsval \<Rightarrow> error + jsval list" where
  "iterate (JArr xs) = Inr xs"
| "iterate (JStr s) = Inr (map (\<lambda>c. JStr [c]) s)"
| "iterate v = Inl TypeError"

text \<open>
  \<^verbatim>\<open>hasArtifact\<close> and \<^verbatim>\<open>readArtifact\<close>: \<^verbatim>\<open>shardPath\<close> slices the hash and joins the
  path, which raises unless the hash is a string.
\<close>

definition hasArtifact :: "coc_home \<Rightarrow> jsval \<Rightarrow> error + bool" where
  "hasArtifact s artifactHash =
     (case artifactHash of JStr hash \<Rightarrow> Inr (blob_files s hash \<noteq> None) | _ \<Rightarrow> Inl TypeError)"

definition readArtifact :: "coc_home \<Rightarrow> jsval \<Rightarrow> error + string option" where
  "readArtifact s artifactHash =
     (case artifactHash of JStr hash \<Rightarrow> Inr (blob_files s hash) | _ \<Rightarrow> Inl TypeError)"

definition descriptorStep :: "coc_home \<Rightarrow> jsval \<Rightarrow> jsval \<Rightarrow> vstate \<Rightarrow> error + vstate" where
  "descriptorStep s event descriptor st =
     bindE (get ''artifact_hash'' descriptor)
       (\<lambda>artifactHash.
          bindE (hasArtifact s artifactHash)
            (\<lambda>found.
               if \<not> found then
                 Inr (pushFailure
                        (failure ARTIFACT_MISSING High CHK_ARTIFACT_EXISTENCE
                           (getOpt ''event_id'' event) artifactHash) st)
               else Inr (st\<lparr>existingArtifacts := setAdd artifactHash (existingArtifacts st)\<rparr>)))"

definition artifactExistenceStep :: "coc_home \<Rightarrow> jsval \<Rightarrow> vstate \<Rightarrow> error + vstate" where
  "artifactExistenceStep s event st =
     bindE (bindE (get ''artifacts'' event) iterate)
       (\<lambda>descriptors. foldE (descriptorStep s event) descriptors st)"

definition chkArtifactExistence :: "coc_home \<Rightarrow> jsval list \<Rightarrow> vstate \<Rightarrow> error + vstate" where
  "chkArtifactExistence s events =
     startCheck CHK_ARTIFACT_EXISTENCE (foldE (artifactExistenceStep s) events)
       (failOrPass CHK_ARTIFACT_EXISTENCE)"

subsection \<open>CHK_ARTIFACT_HASH_MATCH\<close>

definition artifactHashStep :: "host \<Rightarrow> coc_home \<Rightarrow> jsval \<Rightarrow> vstate \<Rightarrow> error + vstate" where
  "artifactHashStep h s artifactHash st =
     bindE (readArtifact s artifactHash)
       (\<lambda>bytes.
          case bytes of
            None \<Rightarrow> Inr st
          | Some b \<Rightarrow>
              if \<not> strictEq (JStr (sha256Hex h b)) artifactHash then
                Inr (pushFailure
                       (failure ARTIFACT_HASH_MISMATCH High CHK_ARTIFACT_HASH_MATCH JUndefined artifactHash)
                       st)
              else Inr (st\<lparr>artifactHashValid := setAdd artifactHash (artifactHashValid st)\<rparr>))"

definition chkArtifactHashMatch :: "host \<Rightarrow> coc_home \<Rightarrow> vstate \<Rightarrow> error + vstate" where
  "chkArtifactHashMatch h s =
     startCheck CHK_ARTIFACT_HASH_MATCH
       (\<lambda>st. foldE (artifactHashStep h s) (existingArtifacts st) st)
       (failOrPass CHK_ARTIFACT_HASH_MATCH)"

subsection \<open>CHK_CLAIM_EVIDENCE_SUFFICIENCY\<close>

text \<open>
  \<^verbatim>\<open>challengedClaims\<close>, a \<^verbatim>\<open>Map\<close> from claim id to the challenging event: a later
  \<^verbatim>\<open>set\<close> of a key replaces its value. A key is looked up with the claim id read
  from another event.
\<close>

fun mapSet :: "jsval \<Rightarrow> jsval \<Rightarrow> (jsval \<times> jsval) list \<Rightarrow> (jsval \<times> jsval) list" where
  "mapSet k v [] = [(k, v)]"
| "mapSet k v (e # es) = (if fst e = k then (k, v) # es else e # mapSet k v es)"

definition mapGet :: "(jsval \<times> jsval) list \<Rightarrow> jsval \<Rightarrow> jsval option" where
  "mapGet m k = map_option snd (find (\<lambda>e. strictEq (fst e) k) m)"

definition challengeStep :: "jsval \<Rightarrow> (jsval \<times> jsval) list \<Rightarrow> error + (jsval \<times> jsval) list" where
  "challengeStep event m =
     bindE (get ''event_type'' event)
       (\<lambda>ety.
          if strictEq ety (JStr ''claim_challenged'') then
            bindE (bindE (get ''payload'' event) (get ''challenged_claim_id''))
              (\<lambda>challengedClaimId.
                 if truthy challengedClaimId then Inr (mapSet challengedClaimId event m) else Inr m)
          else Inr m)"

text \<open>\<^verbatim>\<open>v[0]\<close>\<close>

fun firstItem :: "jsval \<Rightarrow> error + jsval" where
  "firstItem JUndefined = Inl TypeError"
| "firstItem JNull = Inl TypeError"
| "firstItem (JArr xs) = Inr (case xs of [] \<Rightarrow> JUndefined | x # rest \<Rightarrow> x)"
| "firstItem (JStr s) = Inr (case s of [] \<Rightarrow> JUndefined | c # rest \<Rightarrow> JStr [c])"
| "firstItem (JObj kvs) = Inr (ownProp kvs ''0'')"
| "firstItem v = Inr JUndefined"

text \<open>\<^verbatim>\<open>v.map((item) => item.artifact_hash)\<close>: only an array has \<^verbatim>\<open>map\<close>.\<close>

definition artifactHashes :: "jsval \<Rightarrow> error + jsval" where
  "artifactHashes v =
     (case v of
        JArr xs \<Rightarrow> bindE (sequenceE (map (get ''artifact_hash'') xs)) (\<lambda>hs. Inr (JArr hs))
      | _ \<Rightarrow> Inl TypeError)"

text \<open>\<^verbatim>\<open>v.every((artifactHash) => artifactHashValid.has(artifactHash))\<close>\<close>

definition everyValid :: "jsval list \<Rightarrow> jsval \<Rightarrow> error + bool" where
  "everyValid valid v = (case v of JArr xs \<Rightarrow> Inr (list_all (setHas valid) xs) | _ \<Rightarrow> Inl TypeError)"

definition claimStep ::
  "policy_profile \<Rightarrow> (jsval \<times> jsval) list \<Rightarrow> jsval \<Rightarrow> vstate \<Rightarrow> error + vstate" where
  "claimStep policyProfile challengedClaims event st =
     bindE (get ''event_type'' event)
       (\<lambda>ety.
          if \<not> strictEq ety (JStr ''claim_issued'') then Inr st
          else
            bindE (get ''payload'' event)
              (\<lambda>payload.
                 bindE (get ''claim_id'' payload)
                   (\<lambda>payloadClaimId.
                      bindE (if nullish payloadClaimId then bindE (get ''claims'' event) firstItem
                             else Inr payloadClaimId)
                        (\<lambda>claimId.
                           bindE (if nullish (getOpt ''evidence_artifacts'' payload)
                                  then bindE (get ''artifacts'' event) artifactHashes
                                  else Inr (getOpt ''evidence_artifacts'' payload))
                             (\<lambda>evidenceArtifacts.
                                if \<not> truthy claimId \<or>
                                   strictEq (getOpt ''length'' evidenceArtifacts) (JNum 0)
                                then
                                  Inr (pushFailure
                                         (failure CLAIM_UNPROVEN High CHK_CLAIM_EVIDENCE_SUFFICIENCY
                                            (getOpt ''event_id'' event) JUndefined) st)
                                else
                                  bindE (everyValid (artifactHashValid st) evidenceArtifacts)
                                    (\<lambda>evidenceOk.
                                       let st1 =
                                             (if \<not> evidenceOk \<or>
                                                 \<not> setHas (signatureValidEvents st) (getOpt ''event_id'' event)
                                              then pushFailure
                                                     (failure CLAIM_UNPROVEN High
                                                        CHK_CLAIM_EVIDENCE_SUFFICIENCY
                                                        (getOpt ''event_id'' event) JUndefined) st
                                              else st)
                                       in case mapGet challengedClaims claimId of
                                            None \<Rightarrow> Inr st1
                                          | Some challengeEvent \<Rightarrow>
                                              if truthy challengeEvent \<and>
                                                 \<not> strictEq (getOpt ''resolved'' payload) (JBool True)
                                              then
                                                (if policyProfile = Strict then
                                                   Inr (pushFailure
                                                          (failure CLAIM_UNPROVEN High
                                                             CHK_CLAIM_EVIDENCE_SUFFICIENCY
                                                             (getOpt ''event_id'' challengeEvent) JUndefined)
                                                          st1)
                                                 else
                                                   Inr (pushWarning
                                                          (warning ''CLAIM_DISPUTED'' Medium
                                                             (getOpt ''event_id'' challengeEvent)) st1))
                                              else Inr st1))))))"

definition chkClaimEvidenceSufficiency ::
  "policy_profile \<Rightarrow> jsval list \<Rightarrow> vstate \<Rightarrow> error + vstate" where
  "chkClaimEvidenceSufficiency policyProfile events =
     startCheck CHK_CLAIM_EVIDENCE_SUFFICIENCY
       (\<lambda>st. bindE (foldE challengeStep events [])
                (\<lambda>challengedClaims. foldE (claimStep policyProfile challengedClaims) events st))
       (\<lambda>st. if stepFailed CHK_CLAIM_EVIDENCE_SUFFICIENCY st then Fail
             else if list_ex (\<lambda>entry. warning_code entry = ''CLAIM_DISPUTED'') (v_warnings st)
             then Warning else Pass)"

subsection \<open>CHK_ROLE_POLICY_CONFORMANCE\<close>

text \<open>
  \<^verbatim>\<open>rolePolicy[event.actor.role]?.has(event.event_type)\<close>: \<^verbatim>\<open>rolePolicy\<close> is an object
  literal, so the role is converted to a property name; a role gives its set, an
  inherited name gives a value without \<^verbatim>\<open>has\<close>, whose call is a TypeError, and any
  other name gives \<^verbatim>\<open>undefined\<close>.
\<close>

definition rolePolicyStep :: "jsval \<Rightarrow> vstate \<Rightarrow> error + vstate" where
  "rolePolicyStep event st =
     bindE (bindE (get ''actor'' event) (get ''role''))
       (\<lambda>role.
          case rolePolicy (toPropertyKey role) of
            Some allowed \<Rightarrow>
              if \<not> hasString allowed (getOpt ''event_type'' event) then
                Inr (pushFailure
                       (failure ROLE_POLICY_VIOLATION Medium CHK_ROLE_POLICY_CONFORMANCE
                          (getOpt ''event_id'' event) JUndefined) st)
              else Inr st
          | None \<Rightarrow>
              if List.member objectPrototypeNames (toPropertyKey role) then Inl TypeError
              else
                Inr (pushFailure
                       (failure ROLE_POLICY_VIOLATION Medium CHK_ROLE_POLICY_CONFORMANCE
                          (getOpt ''event_id'' event) JUndefined) st))"

definition chkRolePolicyConformance :: "jsval list \<Rightarrow> vstate \<Rightarrow> error + vstate" where
  "chkRolePolicyConformance events =
     startCheck CHK_ROLE_POLICY_CONFORMANCE (foldE rolePolicyStep events)
       (failOrPass CHK_ROLE_POLICY_CONFORMANCE)"

subsection \<open>CHK_FINALIZATION_INTEGRITY\<close>

text \<open>
  \<^verbatim>\<open>events.findIndex((event) => event.event_type === ty)\<close>, counted from \<open>i\<close>; \<open>None\<close>
  is the result \<open>-1\<close>.
\<close>

fun findIndexFrom :: "nat \<Rightarrow> string \<Rightarrow> jsval list \<Rightarrow> error + nat option" where
  "findIndexFrom i ty [] = Inr None"
| "findIndexFrom i ty (event # rest) =
     (case get ''event_type'' event of
        Inl e \<Rightarrow> Inl e
      | Inr t \<Rightarrow> if strictEq t (JStr ty) then Inr (Some i) else findIndexFrom (Suc i) ty rest)"

definition finalizationOperation :: "bool \<Rightarrow> jsval list \<Rightarrow> vstate \<Rightarrow> error + vstate" where
  "finalizationOperation allowIncomplete events st =
     bindE (findIndexFrom 0 ''final_statement_signed'' events)
       (\<lambda>finalStatementIndex.
          bindE (findIndexFrom 0 ''verification_run_completed'' events)
            (\<lambda>verificationCompletedIndex.
               bindE (findIndexFrom 0 ''verification_run_started'' events)
                 (\<lambda>verificationStartedIndex.
                    let st1 = (if finalStatementIndex = None then
                                 pushFailure (failure SCHEMA_INVALID Medium CHK_FINALIZATION_INTEGRITY
                                                JUndefined JUndefined) st
                               else st);
                        st2 = (if verificationStartedIndex = None then
                                 pushFailure (failure SCHEMA_INVALID Medium CHK_FINALIZATION_INTEGRITY
                                                JUndefined JUndefined) st1
                               else st1);
                        st3 = (if verificationCompletedIndex = None then
                                 (if allowIncomplete then
                                    pushWarning (warning ''FINALIZATION_INCOMPLETE'' Low JUndefined) st2
                                  else
                                    pushFailure (failure SCHEMA_INVALID Medium CHK_FINALIZATION_INTEGRITY
                                                   JUndefined JUndefined) st2)
                               else st2);
                        st4 = (case (finalStatementIndex, verificationCompletedIndex) of
                                 (Some f, Some c) \<Rightarrow>
                                   if f > c then
                                     pushFailure (failure ROLE_POLICY_VIOLATION Medium
                                                    CHK_FINALIZATION_INTEGRITY
                                                    (getOpt ''event_id'' (events ! f)) JUndefined) st3
                                   else st3
                               | _ \<Rightarrow> st3)
                    in Inr st4)))"

definition chkFinalizationIntegrity :: "bool \<Rightarrow> jsval list \<Rightarrow> vstate \<Rightarrow> error + vstate" where
  "chkFinalizationIntegrity allowIncomplete events =
     startCheck CHK_FINALIZATION_INTEGRITY (finalizationOperation allowIncomplete events)
       (\<lambda>st. if stepFailed CHK_FINALIZATION_INTEGRITY st then Fail
             else if list_ex (\<lambda>entry. warning_code entry = ''FINALIZATION_INCOMPLETE'') (v_warnings st)
             then Warning else Pass)"

subsection \<open>The pipeline and the report\<close>

text \<open>The ten checks in their order, on a snapshot of the events.\<close>

definition runChecks ::
  "host \<Rightarrow> coc_home \<Rightarrow> string \<Rightarrow> policy_profile \<Rightarrow> bool \<Rightarrow> jsval list \<Rightarrow> error + vstate" where
  "runChecks h s traceId policyProfile allowIncomplete events =
     bindE (chkSchemaConformance traceId events initialState)
       (\<lambda>st1. bindE (chkEventHashIntegrity h events st1)
       (\<lambda>st2. bindE (chkChainContinuity events st2)
       (\<lambda>st3. bindE (chkSignatureValidity h (identities s) events st3)
       (\<lambda>st4. bindE (chkKeyStatus (identities s) events st4)
       (\<lambda>st5. bindE (chkArtifactExistence s events st5)
       (\<lambda>st6. bindE (chkArtifactHashMatch h s st6)
       (\<lambda>st7. bindE (chkClaimEvidenceSufficiency policyProfile events st7)
       (\<lambda>st8. bindE (chkRolePolicyConformance events st8)
       (\<lambda>st9. chkFinalizationIntegrity allowIncomplete events st9)))))))))"

definition verificationStatusOf :: "vstate \<Rightarrow> verification_status" where
  "verificationStatusOf st =
     (if v_failures st \<noteq> [] then VerdictFail
      else if v_warnings st \<noteq> [] then VerdictPassWithWarnings
      else VerdictPass)"

text \<open>
  \<^verbatim>\<open>events.reduce((sum, event) => sum + event.artifacts.length, 0)\<close>, evaluated after
  CHK_ARTIFACT_EXISTENCE has iterated over \<^verbatim>\<open>artifacts\<close> of every event, which is
  therefore an array or a string.
\<close>

definition artifactReferenceCount :: "jsval list \<Rightarrow> nat" where
  "artifactReferenceCount events =
     sum_list (map (\<lambda>event. case getOpt ''artifacts'' event of
                              JArr xs \<Rightarrow> length xs
                            | JStr t \<Rightarrow> length t
                            | _ \<Rightarrow> 0) events)"

definition verificationFailureSchema :: "verification_failure \<Rightarrow> bool" where
  "verificationFailureSchema f =
     ((case f_event_id f of None \<Rightarrow> True | Some v \<Rightarrow> zString ULID_REGEX v) \<and>
      (case f_artifact_hash f of None \<Rightarrow> True | Some v \<Rightarrow> zString HEX_64_REGEX v))"

definition verificationWarningSchema :: "verification_warning \<Rightarrow> bool" where
  "verificationWarningSchema w =
     (warning_code w \<noteq> [] \<and> (case w_event_id w of None \<Rightarrow> True | Some v \<Rightarrow> zString ULID_REGEX v))"

text \<open>\<^verbatim>\<open>verificationReportSchema.parse\<close> succeeds on the report.\<close>

definition verificationReportSchema :: "verification_report \<Rightarrow> bool" where
  "verificationReportSchema r =
     (r_schema_version r \<noteq> [] \<and> ULID_REGEX (report_id r) \<and> ULID_REGEX (r_trace_id r) \<and>
      list_all verificationFailureSchema (failures r) \<and>
      list_all verificationWarningSchema (warnings r))"

text \<open>
  \<^verbatim>\<open>verifyTrace\<close> from the snapshot on: the checks, the verdict and the parsed report.
\<close>

definition verifyEvents ::
  "host \<Rightarrow> coc_home \<Rightarrow> trace_session \<Rightarrow> verify_input \<Rightarrow> jsval list \<Rightarrow> error + verification_report" where
  "verifyEvents h s trace input events =
     (let policyProfile = (case vi_policy_profile input of
                             None \<Rightarrow> ts_policy_profile trace
                           | Some p \<Rightarrow> p)
      in bindE (runChecks h s (vi_trace_id input) policyProfile (allow_incomplete_finalization input) events)
           (\<lambda>st.
              let report =
                    \<lparr>report_id = vi_report_id input, r_trace_id = ts_trace_id trace,
                     r_schema_version = ts_schema_version trace,
                     verification_status = verificationStatusOf st,
                     checks = v_checks st, failures = v_failures st, warnings = v_warnings st,
                     metric_event_count = length events,
                     metric_artifact_reference_count = artifactReferenceCount events,
                     r_policy_profile = policyProfile\<rparr>
              in if verificationReportSchema report then Inr report else Inl ZodError))"

definition verifyTrace ::
  "host \<Rightarrow> coc_home \<Rightarrow> verify_input \<Rightarrow> (error + verification_report) \<times> coc_home" where
  "verifyTrace h s input =
     (case trace_meta s (vi_trace_id input) of
        None \<Rightarrow> (Inl TraceNotFound, s)
      | Some trace \<Rightarrow>
          (case readEvents h s (vi_trace_id input) True of
             (events, s1) \<Rightarrow>
               (case verifyEvents h s1 trace input events of
                  Inl e \<Rightarrow> (Inl e, s1)
                | Inr report \<Rightarrow>
                    if (case vi_write_reports input of None \<Rightarrow> True | Some w \<Rightarrow> w) then
                      (Inr report,
                       s1\<lparr>report_files := (report_files s1)
                            ((vi_trace_id input, report_id report) \<mapsto> report),
                          latest_report := (latest_report s1)(vi_trace_id input \<mapsto> report)\<rparr>)
                    else (Inr report, s1))))"

definition failureCodes :: "verification_report \<Rightarrow> failure_code list" where
  "failureCodes r = map failure_code (failures r)"

definition warningCodes :: "verification_report \<Rightarrow> string list" where
  "warningCodes r = map warning_code (warnings r)"

subsection \<open>What a check adds to the lists of the report\<close>

text \<open>
  From \<open>st\<close> to \<open>st'\<close> the failures and the warnings are only pushed to: the lists of
  \<open>st\<close> are prefixes of those of \<open>st'\<close>, every failure added satisfies \<open>P\<close> and every
  warning added satisfies \<open>Q\<close>.
\<close>

definition grows ::
  "(verification_failure \<Rightarrow> bool) \<Rightarrow> (verification_warning \<Rightarrow> bool) \<Rightarrow> vstate \<Rightarrow> vstate \<Rightarrow> bool" where
  "grows P Q st st' =
     (take (length (v_failures st)) (v_failures st') = v_failures st \<and>
      list_all P (drop (length (v_failures st)) (v_failures st')) \<and>
      take (length (v_warnings st)) (v_warnings st') = v_warnings st \<and>
      list_all Q (drop (length (v_warnings st)) (v_warnings st')))"

text \<open>
  The failure that CHK_CLAIM_EVIDENCE_SUFFICIENCY pushes for a disputed claim under the
  strict profile, where under the other profiles it pushes the warning \<open>w\<close>: both carry
  the id of the challenging event, under the same condition.
\<close>

definition disputeFailure :: "verification_warning \<Rightarrow> verification_failure" where
  "disputeFailure w =
     \<lparr>failure_code = CLAIM_UNPROVEN, f_severity = High, f_event_id = w_event_id w,
      f_artifact_hash = None, verification_step = CHK_CLAIM_EVIDENCE_SUFFICIENCY\<rparr>"

section \<open>A host and traces for the examples\<close>

text \<open>
  \<^verbatim>\<open>JSON.stringify\<close> on the values of the model: the keys of an object in insertion
  order, a key whose value is \<^verbatim>\<open>undefined\<close> left out, \<^verbatim>\<open>null\<close> for \<^verbatim>\<open>undefined\<close> in an
  array and for a number that is not finite.
\<close>

fun stringifyValue :: "jsval \<Rightarrow> string" where
  "stringifyValue JUndefined = ''null''"
| "stringifyValue JNull = ''null''"
| "stringifyValue (JBool b) = (if b then ''true'' else ''false'')"
| "stringifyValue (JNum i) = show_int i"
| "stringifyValue JNonFinite = ''null''"
| "stringifyValue (JStr t) = quoteJSON t"
| "stringifyValue (JArr xs) = ''['' @ join '','' (map stringifyValue xs) @ '']''"
| "stringifyValue (JObj kvs) =
     ''{'' @ join '','' (map (\<lambda>kv. quoteJSON (fst kv) @ '':'' @ stringifyValue (snd kv))
                         (filter (\<lambda>kv. snd kv \<noteq> JUndefined) kvs)) @ ''}''"

definition stringifyJSON :: "jsval \<Rightarrow> string" where
  "stringifyJSON v = (if v = JUndefined then ''undefined'' else stringifyValue v)"

text \<open>
  Stand-ins for the cryptography, used only to run the model on concrete traces: a
  digest that is the same 64 digits for every input, and a signature that is the key
  text followed by the digest of the signed bytes, verified by recomputing it.
\<close>

definition exampleDigest :: "string \<Rightarrow> string" where
  "exampleDigest b = GENESIS_PREV_HASH"

definition exampleSign :: "string \<Rightarrow> string \<Rightarrow> string option" where
  "exampleSign key bytes = Some (key @ '':'' @ exampleDigest bytes)"

definition exampleVerify :: "string \<Rightarrow> string \<Rightarrow> jsval \<Rightarrow> error + bool" where
  "exampleVerify key bytes v =
     (case v of JStr sig \<Rightarrow> Inr (sig = key @ '':'' @ exampleDigest bytes) | _ \<Rightarrow> Inl TypeError)"

text \<open>
  The lines the examples put in an events file are \<^verbatim>\<open>{}\<close>, \<^verbatim>\<open>null\<close> and lines that are
  not JSON; on these the function below is \<^verbatim>\<open>JSON.parse\<close>.
\<close>

definition exampleParse :: "string \<Rightarrow> jsval option" where
  "exampleParse line =
     (if line = ''{}'' then Some (JObj []) else if line = ''null'' then Some JNull else None)"

definition exampleHost :: host where
  "exampleHost =
     \<lparr>localeCompare = asciiLetterCollate, normalizeNFC = (\<lambda>t. t), sha256Hex = exampleDigest,
      ed25519Sign = exampleSign, ed25519Verify = exampleVerify, jsonParse = exampleParse,
      jsonStringify = stringifyJSON\<rparr>"

definition exampleTraceId :: string where
  "exampleTraceId = ''01JZ5G4JYV7RS6P7Q1R66RHCQW''"

definition exampleNow :: string where
  "exampleNow = ''2024-01-01T00:00:00.000Z''"

definition exampleIdentity :: "string \<Rightarrow> agent_identity" where
  "exampleIdentity role =
     \<lparr>agent_id = role @ ''-agent'', key_id = ''key_'' @ role, public_key = ''pem-'' @ role,
      key_status = ''active'', revoked_at = None\<rparr>"

definition exampleActor :: "string \<Rightarrow> jsval" where
  "exampleActor role =
     JObj [(''agent_id'', JStr (role @ ''-agent'')), (''role'', JStr role),
           (''key_id'', JStr (''key_'' @ role))]"

definition exampleSession :: trace_session where
  "exampleSession =
     \<lparr>ts_schema_version = SCHEMA_VERSION, ts_trace_id = exampleTraceId, ts_status = Running,
      head_event_hash = JStr GENESIS_PREV_HASH, event_count = 0, artifact_count = JNum 0,
      ts_policy_profile = Default\<rparr>"

definition emptyHome :: coc_home where
  "emptyHome =
     \<lparr>trace_meta = Map.empty, events_file = Map.empty, lock_files = {}, identities = [],
      blob_files = Map.empty, meta_files = Map.empty, report_files = Map.empty,
      latest_report = Map.empty\<rparr>"

definition exampleArtifactInput :: write_artifact_input where
  "exampleArtifactInput =
     \<lparr>in_trace_id = exampleTraceId, in_producer_event_id = ''01JZ5G4JYV7RS6P7Q1R66RHC00'',
      in_bytes = ''{\"summary\":\"done\"}'', in_media_type = ''application/json'',
      in_encoding = ''utf-8'', in_redaction_status = None\<rparr>"

text \<open>
  A home with the four agents of the demo run in the registry, the metadata of one
  trace and one artifact written by \<^const>\<open>writeArtifact\<close>.
\<close>

definition exampleHome :: coc_home where
  "exampleHome =
     snd (writeArtifact exampleHost
            (emptyHome\<lparr>trace_meta := [exampleTraceId \<mapsto> exampleSession],
                        identities := map exampleIdentity roles\<rparr>)
            exampleNow exampleArtifactInput)"

definition descriptorJson :: "artifact_descriptor \<Rightarrow> jsval" where
  "descriptorJson d =
     JObj [(''artifact_hash'', JStr (artifact_hash d)), (''hash_algorithm'', JStr (hash_algorithm d)),
           (''media_type'', JStr (media_type d)), (''encoding'', JStr (encoding d)),
           (''byte_size'', JNum (int (byte_size d))), (''created_at'', JStr (created_at d)),
           (''producer_event_id'', JStr (producer_event_id d)), (''storage_uri'', JStr (storage_uri d)),
           (''redaction_status'', JStr (redaction_status d)), (''trace_id'', JStr (trace_id d)),
           (''integrity_verified_at'', JStr (integrity_verified_at d))]"

definition exampleArtifact :: jsval where
  "exampleArtifact =
     descriptorJson (fst (writeArtifact exampleHost emptyHome exampleNow exampleArtifactInput))"

definition exampleClaimId :: string where
  "exampleClaimId = ''claim_01JZ5G4JYV7RS6P7Q1R66RHCCC''"

definition exampleInput ::
  "string \<Rightarrow> string \<Rightarrow> string \<Rightarrow> jsval \<Rightarrow> string list \<Rightarrow> jsval list \<Rightarrow> build_event_input" where
  "exampleInput eventId eventType role payload claims artifacts =
     \<lparr>bi_trace_id = exampleTraceId, bi_event_type = eventType, bi_actor = exampleActor role,
      bi_payload_type = ''demo'', bi_payload = payload, bi_claims = claims,
      bi_artifacts = artifacts, bi_prev_event_hash = GENESIS_PREV_HASH,
      bi_private_key_pem = ''pem-'' @ role, bi_created_at = exampleNow, bi_event_id = eventId\<rparr>"

text \<open>
  The event \<^const>\<open>buildSignedEvent\<close> returns for \<^const>\<open>exampleInput\<close> on the example
  host, where every digest is the genesis hash.
\<close>

definition exampleEvent ::
  "string \<Rightarrow> string \<Rightarrow> string \<Rightarrow> jsval \<Rightarrow> string list \<Rightarrow> jsval list \<Rightarrow> jsval" where
  "exampleEvent eventId eventType role payload claims artifacts =
     JObj [(''schema_version'', JStr SCHEMA_VERSION), (''trace_id'', JStr exampleTraceId),
           (''event_id'', JStr eventId), (''event_type'', JStr eventType),
           (''created_at'', JStr exampleNow), (''actor'', exampleActor role),
           (''payload_hash'', JStr GENESIS_PREV_HASH),
           (''prev_event_hash'', JStr GENESIS_PREV_HASH),
           (''payload_type'', JStr ''demo''), (''payload'', payload),
           (''claims'', JArr (map JStr claims)), (''artifacts'', JArr artifacts),
           (''signature'',
            JObj [(''algorithm'', JStr SIGNATURE_ALGORITHM),
                  (''signature_b64'', JStr (''pem-'' @ role @ '':'' @ GENESIS_PREV_HASH)),
                  (''signed_bytes_hash'', JStr GENESIS_PREV_HASH)]),
           (''event_hash'', JStr GENESIS_PREV_HASH)]"

definition proposalEvent :: jsval where
  "proposalEvent =
     exampleEvent ''01JZ5G4JYV7RS6P7Q1R66RHC01'' ''proposal_created'' ''planner''
       (JObj [(''objective'', JStr ''demo'')]) [] []"

definition claimEvent :: jsval where
  "claimEvent =
     exampleEvent ''01JZ5G4JYV7RS6P7Q1R66RHC02'' ''claim_issued'' ''executor''
       (JObj [(''claim_id'', JStr exampleClaimId), (''claim_text'', JStr ''done''),
              (''evidence_artifacts'', JArr [JStr GENESIS_PREV_HASH])])
       [exampleClaimId] [exampleArtifact]"

definition finalEvent :: jsval where
  "finalEvent =
     exampleEvent ''01JZ5G4JYV7RS6P7Q1R66RHC03'' ''final_statement_signed'' ''executor''
       (JObj [(''consolidated_claim_ids'', JArr [JStr exampleClaimId])]) [exampleClaimId] []"

definition challengeEvent :: jsval where
  "challengeEvent =
     exampleEvent ''01JZ5G4JYV7RS6P7Q1R66RHC04'' ''claim_challenged'' ''critic''
       (JObj [(''challenged_claim_id'', JStr exampleClaimId), (''reason'', JStr ''weak'')])
       [exampleClaimId] []"

definition secondFinalEvent :: jsval where
  "secondFinalEvent =
     exampleEvent ''01JZ5G4JYV7RS6P7Q1R66RHC08'' ''final_statement_signed'' ''executor''
       (JObj [(''consolidated_claim_ids'', JArr [JStr exampleClaimId])]) [exampleClaimId] []"

definition startedEvent :: jsval where
  "startedEvent =
     exampleEvent ''01JZ5G4JYV7RS6P7Q1R66RHC05'' ''verification_run_started'' ''auditor''
       (JObj [(''policy_profile'', JStr ''default'')]) [] []"

definition completedEvent :: jsval where
  "completedEvent =
     exampleEvent ''01JZ5G4JYV7RS6P7Q1R66RHC06'' ''verification_run_completed'' ''auditor''
       (JObj [(''verification_status'', JStr ''pass'')]) [] []"

definition cleanTrace :: "jsval list" where
  "cleanTrace = [proposalEvent, claimEvent, finalEvent, startedEvent, completedEvent]"

definition challengedTrace :: "jsval list" where
  "challengedTrace =
     [proposalEvent, claimEvent, finalEvent, challengeEvent, startedEvent, completedEvent]"

text \<open>The clean trace with a second final statement after the first.\<close>

definition twoFinalsTrace :: "jsval list" where
  "twoFinalsTrace =
     [proposalEvent, claimEvent, finalEvent, secondFinalEvent, startedEvent, completedEvent]"

text \<open>\<^verbatim>\<open>target.payload = p\<close> on the first event of a type, as the tamper tests write it.\<close>

definition assignProp :: "string \<Rightarrow> jsval \<Rightarrow> jsval \<Rightarrow> jsval" where
  "assignProp k v target =
     (case target of
        JObj kvs \<Rightarrow>
          if List.member (map fst kvs) k
          then JObj (map (\<lambda>kv. if fst kv = k then (k, v) else kv) kvs)
          else JObj (kvs @ [(k, v)])
      | _ \<Rightarrow> target)"

fun mutatePayload :: "string \<Rightarrow> jsval \<Rightarrow> jsval list \<Rightarrow> jsval list" where
  "mutatePayload ty p [] = []"
| "mutatePayload ty p (event # rest) =
     (if getOpt ''event_type'' event = JStr ty then assignProp ''payload'' p event # rest
      else event # mutatePayload ty p rest)"

definition tamperedTrace :: "jsval list" where
  "tamperedTrace = mutatePayload ''proposal_created'' (JObj [(''tampered'', JBool True)]) cleanTrace"

definition exampleVerifyInput :: "policy_profile option \<Rightarrow> verify_input" where
  "exampleVerifyInput profile =
     \<lparr>vi_trace_id = exampleTraceId, vi_policy_profile = profile, vi_write_reports = Some False,
      vi_report_id = ''01JZ5G4JYV7RS6P7Q1R66RHCRR'', allow_incomplete_finalization = False\<rparr>"

text \<open>
  Homes for the ledger examples: one committed line; the same after a crash has left a
  partial line behind it; and the latter as \<^const>\<open>readEvents\<close> leaves it. The event is
  cut down to the fields \<^const>\<open>appendEvent\<close> reads.
\<close>

definition committedHome :: coc_home where
  "committedHome =
     emptyHome\<lparr>trace_meta := [exampleTraceId \<mapsto> exampleSession],
                events_file := [exampleTraceId \<mapsto> ''{}'' @ [CHR 0x0A]]\<rparr>"


definition crashedHome :: coc_home where
  "crashedHome =
     emptyHome\<lparr>trace_meta := [exampleTraceId \<mapsto> exampleSession],
                events_file := [exampleTraceId \<mapsto> ''{}'' @ [CHR 0x0A] @ ''{bad'']\<rparr>"

definition recoveredHome :: coc_home where
  "recoveredHome = crashedHome\<lparr>events_file := [exampleTraceId \<mapsto> ''{}'']\<rparr>"

definition ledgerEvent :: "string \<Rightarrow> jsval" where
  "ledgerEvent prevHash =
     JObj [(''trace_id'', JStr exampleTraceId), (''event_id'', JStr ''01JZ5G4JYV7RS6P7Q1R66RHC07''),
           (''prev_event_hash'', JStr prevHash), (''event_hash'', JStr GENESIS_PREV_HASH),
           (''artifacts'', JArr [])]"

definition secondArtifactInput :: write_artifact_input where
  "secondArtifactInput =
     exampleArtifactInput\<lparr>in_trace_id := ''01JZ5G4JYV7RS6P7Q1R66RHCQZ'',
                           in_producer_event_id := ''01JZ5G4JYV7RS6P7Q1R66RHCRA''\<rparr>"

section \<open>Properties of the canonicalizer\<close>

lemma set_insert_by: "set (insert_by cmp x xs) = insert x (set xs)"
  by (induction xs) auto

lemma set_sort_by: "set (sort_by cmp xs) = set xs"
  by (induction xs) (auto simp: sort_by_def set_insert_by)

lemma sequenceE_returns:
  "(\<exists>vs. sequenceE rs = Inr vs) \<longleftrightarrow> (\<forall>r \<in> set rs. \<exists>v. r = Inr v)"
  by (induction rs) (auto split: sum.splits)

lemma renderEntries_returns:
  "(\<exists>t. renderEntries h es = Inr t) \<longleftrightarrow> (\<forall>e \<in> set es. \<exists>t. snd e = Inr t)"
proof -
  have "(\<exists>ts. sequenceE (map (\<lambda>e. case snd e of Inl x \<Rightarrow> Inl x
            | Inr t \<Rightarrow> Inr (canonicalString h (fst e) @ '':'' @ t)) es) = Inr ts)
        \<longleftrightarrow> (\<forall>e \<in> set es. \<exists>t. snd e = Inr t)"
    unfolding sequenceE_returns
    by (auto split: sum.splits) (metis old.sum.exhaust snd_conv)
  then show ?thesis
    unfolding renderEntries_def by (auto split: sum.splits)
qed

lemma canonicalize_returns_iff:
  "(\<exists>t. canonicalize h v = Inr t) \<longleftrightarrow> canonicalizable v"
proof (induction h v rule: canonicalize.induct)
  case (6 h xs)
  have "(\<exists>ts. sequenceE (map (canonicalize h) xs) = Inr ts) \<longleftrightarrow> list_all canonicalizable xs"
    unfolding sequenceE_returns using 6 by (auto simp: list_all_iff)
  then show ?case by (auto split: sum.splits)
next
  case (7 h kvs)
  then show ?case
    by (auto simp: renderEntries_returns sortEntries_def set_sort_by list_all_iff)
qed (auto simp: canonicalNumber_def)

lemma canonicalize_canonicalText:
  "canonicalizable v \<Longrightarrow> canonicalize h v = Inr (canonicalText h v)"
  using canonicalize_returns_iff [of h v] by (auto simp: canonicalText_def)

text \<open>
  C5. The claim: \<^verbatim>\<open>canonicalize\<close> drops the keys of an object whose value is undefined and
  emits the others sorted by the code-point order of the keys. The keys are sorted with
  \<^verbatim>\<open>left.localeCompare(right)\<close>, which is the collation of the host's locale and not the
  code-point order. On the object \<^verbatim>\<open>{"B": 2, "a": 1}\<close> the code emits \<^verbatim>\<open>a\<close> before
  \<^verbatim>\<open>B\<close>, although \<^verbatim>\<open>B\<close> (U+0042) is below \<^verbatim>\<open>a\<close> (U+0061) in code-point order.
\<close>

theorem canonicalObject_orders_by_locale:
  "canonicalObject exampleHost [(''B'', JNum 2), (''a'', JNum 1)] = Inr ''{\"a\":1,\"B\":2}'' \<and>
   emittedKeys exampleHost [(''B'', JNum 2), (''a'', JNum 1)] = [''a'', ''B''] \<and>
   (''B'' :: string) < ''a''"
  by (simp add: canonicalObject_def emittedKeys_def exampleHost_def sortEntries_def sort_by_def
      renderEntries_def canonicalString_def canonicalNumber_def show_int_def show_nat.simps
      asciiLetterCollate_def lower_char_def quoteJSON_def escape_char_def)

section \<open>Properties of the ledger\<close>


















lemma readEvents_changes_only_events:
  "snd (readEvents h s traceId r) = s \<or>
   (\<exists>raw raw'. events_file s traceId = Some raw \<and>
      snd (readEvents h s traceId r) = s\<lparr>events_file := (events_file s)(traceId \<mapsto> raw')\<rparr>)"
  by (auto simp: readEvents_def split: option.splits prod.splits)





lemma genesis_literal:
  "GENESIS_PREV_HASH = ''0000000000000000000000000000000000000000000000000000000000000000''"
  by (simp add: GENESIS_PREV_HASH_def eval_nat_numeral)

lemmas ledger_example_defs = committedHome_def crashedHome_def recoveredHome_def ledgerEvent_def
  emptyHome_def exampleHost_def exampleParse_def exampleSession_def exampleTraceId_def

lemmas readEvents_eval = readEvents_def is_space_def is_space3_def in_range_def truncateSync_def




text \<open>
  C4. The claim: after a crash has left a malformed line behind well-formed ones,
  \<^verbatim>\<open>readEvents\<close> returns the events before it and truncates the file to the prefix of
  well-formed newline-terminated lines, and a second read changes nothing. On the file
  \<^verbatim>\<open>{}\n{bad\<close> the read returns the one event and a second read returns it again, but
  the file is cut to \<^verbatim>\<open>{}\<close>, one byte short of \<^verbatim>\<open>{}\n\<close>: the newline that ends the last
  good line is cut off with the garbage. The next append then writes its line directly
  after \<^verbatim>\<open>{}\<close>, and the read after it finds one malformed line and returns no event.
\<close>

theorem tail_recovery_drops_the_last_newline:
  "readEvents exampleHost crashedHome exampleTraceId True = ([JObj []], recoveredHome) \<and>
   events_file recoveredHome exampleTraceId = Some ''{}'' \<and>
   events_file recoveredHome exampleTraceId \<noteq> Some (''{}'' @ [CHR 0x0A]) \<and>
   readEvents exampleHost recoveredHome exampleTraceId True = ([JObj []], recoveredHome) \<and>
   fst (appendEvent exampleHost recoveredHome exampleTraceId (ledgerEvent GENESIS_PREV_HASH))
     = Inr (ledgerEvent GENESIS_PREV_HASH) \<and>
   events_file (snd (appendEvent exampleHost recoveredHome exampleTraceId (ledgerEvent GENESIS_PREV_HASH)))
       exampleTraceId
     = Some (''{}'' @ stringifyJSON (ledgerEvent GENESIS_PREV_HASH) @ [CHR 0x0A]) \<and>
   fst (readEvents exampleHost
          (snd (appendEvent exampleHost recoveredHome exampleTraceId (ledgerEvent GENESIS_PREV_HASH)))
          exampleTraceId True) = []"
proof -
  have a: "readEvents exampleHost crashedHome exampleTraceId True = ([JObj []], recoveredHome)"
    by (simp add: ledger_example_defs readEvents_eval)
  have b: "events_file recoveredHome exampleTraceId = Some ''{}''"
    by (simp add: recoveredHome_def)
  have c: "readEvents exampleHost recoveredHome exampleTraceId True = ([JObj []], recoveredHome)"
    by (simp add: ledger_example_defs readEvents_eval)
  have d: "fst (appendEvent exampleHost recoveredHome exampleTraceId (ledgerEvent GENESIS_PREV_HASH))
     = Inr (ledgerEvent GENESIS_PREV_HASH)"
    by (simp add: appendEvent_def appendLocked_def ledger_example_defs readEvents_eval
        getOpt_def ownProp_def bindE_def Let_def jsAdd_def)
  have e: "events_file (snd (appendEvent exampleHost recoveredHome exampleTraceId (ledgerEvent GENESIS_PREV_HASH)))
       exampleTraceId
     = Some (''{}'' @ stringifyJSON (ledgerEvent GENESIS_PREV_HASH) @ [CHR 0x0A])"
    by (simp add: appendEvent_def appendLocked_def ledger_example_defs readEvents_eval
        getOpt_def ownProp_def bindE_def Let_def jsAdd_def)
  have f: "fst (readEvents exampleHost
          (snd (appendEvent exampleHost recoveredHome exampleTraceId (ledgerEvent GENESIS_PREV_HASH)))
          exampleTraceId True) = []"
    by (simp add: appendEvent_def appendLocked_def ledger_example_defs readEvents_eval
        getOpt_def ownProp_def bindE_def Let_def jsAdd_def stringifyJSON_def quoteJSON_def
        escape_char_def genesis_literal)
  from a b c d e f show ?thesis by simp
qed




section \<open>Properties of the artifact store\<close>

lemma writeArtifact_linked:
  assumes sc: "meta_files s (sha256Hex h (in_bytes inp)) = Some sc"
    and refs: "references sc = Some refs"
    and blob: "blob_files s (sha256Hex h (in_bytes inp)) = Some blob"
  shows "blob_files (snd (writeArtifact h s now inp)) = blob_files s"
    and "\<exists>sc'. meta_files (snd (writeArtifact h s now inp)) = (meta_files s)(sha256Hex h (in_bytes inp) \<mapsto> sc') \<and>
           created_at sc' = created_at sc \<and> byte_size sc' = byte_size sc \<and>
           media_type sc' = media_type sc \<and> encoding sc' = encoding sc \<and>
           references sc' =
             Some (if (in_trace_id inp, in_producer_event_id inp)
                       \<in> set (map (\<lambda>r. (ref_trace_id r, ref_producer_event_id r)) refs)
                   then refs
                   else refs @ [\<lparr>ref_trace_id = in_trace_id inp,
                                   ref_producer_event_id = in_producer_event_id inp,
                                   ref_created_at = now\<rparr>])"
    and "created_at (fst (writeArtifact h s now inp)) = created_at sc"
    and "byte_size (fst (writeArtifact h s now inp)) = byte_size sc"
    and "media_type (fst (writeArtifact h s now inp)) = media_type sc"
    and "encoding (fst (writeArtifact h s now inp)) = encoding sc"
proof -
  have linked: "list_ex (\<lambda>entry. ref_trace_id entry = in_trace_id inp \<and>
                     ref_producer_event_id entry = in_producer_event_id inp) refs
        \<longleftrightarrow> (in_trace_id inp, in_producer_event_id inp)
              \<in> set (map (\<lambda>r. (ref_trace_id r, ref_producer_event_id r)) refs)"
    by (force simp: list_ex_iff image_iff)
  show "blob_files (snd (writeArtifact h s now inp)) = blob_files s"
    using sc refs blob by (simp add: writeArtifact_def Let_def)
  show "\<exists>sc'. meta_files (snd (writeArtifact h s now inp)) = (meta_files s)(sha256Hex h (in_bytes inp) \<mapsto> sc') \<and>
           created_at sc' = created_at sc \<and> byte_size sc' = byte_size sc \<and>
           media_type sc' = media_type sc \<and> encoding sc' = encoding sc \<and>
           references sc' =
             Some (if (in_trace_id inp, in_producer_event_id inp)
                       \<in> set (map (\<lambda>r. (ref_trace_id r, ref_producer_event_id r)) refs)
                   then refs
                   else refs @ [\<lparr>ref_trace_id = in_trace_id inp,
                                   ref_producer_event_id = in_producer_event_id inp,
                                   ref_created_at = now\<rparr>])"
  proof (cases "(in_trace_id inp, in_producer_event_id inp)
                  \<in> set (map (\<lambda>r. (ref_trace_id r, ref_producer_event_id r)) refs)")
    case True
    then have "meta_files (snd (writeArtifact h s now inp)) = meta_files s"
      using sc refs blob linked by (simp add: writeArtifact_def Let_def)
    also have "\<dots> = (meta_files s)(sha256Hex h (in_bytes inp) \<mapsto> sc)"
      using sc by (simp add: map_upd_triv)
    finally show ?thesis using True refs by auto
  next
    case False
    let ?sc' = "sc\<lparr>references := Some (refs @ [\<lparr>ref_trace_id = in_trace_id inp,
                                   ref_producer_event_id = in_producer_event_id inp,
                                   ref_created_at = now\<rparr>])\<rparr>"
    have "meta_files (snd (writeArtifact h s now inp)) =
            (meta_files s)(sha256Hex h (in_bytes inp) \<mapsto> ?sc')"
      using False sc refs blob linked by (simp add: writeArtifact_def Let_def)
    then show ?thesis
      using False by (intro exI [of _ ?sc']) simp
  qed
  show "created_at (fst (writeArtifact h s now inp)) = created_at sc"
    "byte_size (fst (writeArtifact h s now inp)) = byte_size sc"
    "media_type (fst (writeArtifact h s now inp)) = media_type sc"
    "encoding (fst (writeArtifact h s now inp)) = encoding sc"
    using sc by (simp_all add: writeArtifact_def Let_def split: option.splits)
qed

lemma writeArtifacts_linked:
  assumes "meta_files s H = Some sc"
    and "references sc = Some refs"
    and "blob_files s H = Some blob"
    and "distinct (map (\<lambda>r. (ref_trace_id r, ref_producer_event_id r)) refs)"
    and "list_all (\<lambda>w. sha256Hex h (in_bytes (snd w)) = H) ws"
  shows "blob_files (snd (writeArtifacts h s ws)) = blob_files s \<and>
         (\<forall>k. k \<noteq> H \<longrightarrow> meta_files (snd (writeArtifacts h s ws)) k = meta_files s k) \<and>
         (\<exists>sc' refs'. meta_files (snd (writeArtifacts h s ws)) H = Some sc' \<and>
            references sc' = Some refs' \<and>
            distinct (map (\<lambda>r. (ref_trace_id r, ref_producer_event_id r)) refs') \<and>
            set (map (\<lambda>r. (ref_trace_id r, ref_producer_event_id r)) refs') =
              set (map (\<lambda>r. (ref_trace_id r, ref_producer_event_id r)) refs) \<union>
              set (map (\<lambda>w. (in_trace_id (snd w), in_producer_event_id (snd w))) ws)) \<and>
         list_all (\<lambda>d. created_at d = created_at sc \<and> byte_size d = byte_size sc \<and>
                        media_type d = media_type sc \<and> encoding d = encoding sc)
           (fst (writeArtifacts h s ws))"
  using assms
proof (induction ws arbitrary: s sc refs)
  case Nil
  then show ?case by simp
next
  case (Cons w ws)
  let ?inp = "snd w"
  let ?r = "writeArtifact h s (fst w) ?inp"
  have hash: "sha256Hex h (in_bytes ?inp) = H" using Cons.prems(5) by simp
  note step = writeArtifact_linked [of s h ?inp sc refs blob "fst w", unfolded hash,
      OF Cons.prems(1) Cons.prems(2) Cons.prems(3)]
  from step(2) obtain sc1 where sc1:
    "meta_files (snd ?r) = (meta_files s)(H \<mapsto> sc1)"
    "created_at sc1 = created_at sc" "byte_size sc1 = byte_size sc"
    "media_type sc1 = media_type sc" "encoding sc1 = encoding sc"
    "references sc1 =
       Some (if (in_trace_id ?inp, in_producer_event_id ?inp)
                 \<in> set (map (\<lambda>r. (ref_trace_id r, ref_producer_event_id r)) refs)
             then refs
             else refs @ [\<lparr>ref_trace_id = in_trace_id ?inp,
                             ref_producer_event_id = in_producer_event_id ?inp,
                             ref_created_at = fst w\<rparr>])"
    by blast
  let ?refs1 = "if (in_trace_id ?inp, in_producer_event_id ?inp)
                 \<in> set (map (\<lambda>r. (ref_trace_id r, ref_producer_event_id r)) refs)
             then refs
             else refs @ [\<lparr>ref_trace_id = in_trace_id ?inp,
                             ref_producer_event_id = in_producer_event_id ?inp,
                             ref_created_at = fst w\<rparr>]"
  have d1: "distinct (map (\<lambda>r. (ref_trace_id r, ref_producer_event_id r)) ?refs1)"
    using Cons.prems(4) by auto
  have set1: "set (map (\<lambda>r. (ref_trace_id r, ref_producer_event_id r)) ?refs1) =
      insert (in_trace_id ?inp, in_producer_event_id ?inp)
        (set (map (\<lambda>r. (ref_trace_id r, ref_producer_event_id r)) refs))"
    by auto
  have m1: "meta_files (snd ?r) H = Some sc1" using sc1(1) by simp
  have b1: "blob_files (snd ?r) H = Some blob" using step(1) Cons.prems(3) by simp
  have rest: "list_all (\<lambda>w. sha256Hex h (in_bytes (snd w)) = H) ws" using Cons.prems(5) by simp
  note IH = Cons.IH [OF m1 sc1(6) b1 d1 rest]
  have unfold: "writeArtifacts h s (w # ws) =
      (fst ?r # fst (writeArtifacts h (snd ?r) ws), snd (writeArtifacts h (snd ?r) ws))"
    by (simp split: prod.splits)
  show ?case
    unfolding unfold using IH step(1) step(3-6) sc1(1-5) set1
    by (auto simp: list_all_iff)
qed

text \<open>
  C9. Writes of the same bytes \<open>b\<close> into a store that holds neither a blob nor a sidecar
  for their hash: afterwards the blob of that hash is \<open>b\<close> and no other blob or sidecar
  has changed; the references of the sidecar hold each pair of trace id and producer
  event id once, so their number is the number of distinct pairs, and \<open>N\<close> when the \<open>N\<close>
  writes have distinct pairs; and every descriptor returned carries the creation time,
  byte size, media type and encoding of the first write, which are the ones of the
  sidecar.
\<close>

theorem writeArtifact_dedup:
  assumes fresh: "meta_files s (sha256Hex h b) = None" "blob_files s (sha256Hex h b) = None"
    and same: "list_all (\<lambda>w. in_bytes (snd w) = b) (w # ws)"
  shows "blob_files (snd (writeArtifacts h s (w # ws))) (sha256Hex h b) = Some b \<and>
         (\<forall>k. k \<noteq> sha256Hex h b \<longrightarrow>
            blob_files (snd (writeArtifacts h s (w # ws))) k = blob_files s k \<and>
            meta_files (snd (writeArtifacts h s (w # ws))) k = meta_files s k) \<and>
         (\<exists>sc refs.
            meta_files (snd (writeArtifacts h s (w # ws))) (sha256Hex h b) = Some sc \<and>
            references sc = Some refs \<and>
            distinct (map (\<lambda>r. (ref_trace_id r, ref_producer_event_id r)) refs) \<and>
            set (map (\<lambda>r. (ref_trace_id r, ref_producer_event_id r)) refs) =
              set (map (\<lambda>w. (in_trace_id (snd w), in_producer_event_id (snd w))) (w # ws)) \<and>
            length refs = card (set (map (\<lambda>w. (in_trace_id (snd w), in_producer_event_id (snd w))) (w # ws))) \<and>
            (distinct (map (\<lambda>w. (in_trace_id (snd w), in_producer_event_id (snd w))) (w # ws))
               \<longrightarrow> length refs = length (w # ws))) \<and>
         list_all (\<lambda>d. created_at d = fst w \<and> byte_size d = length b \<and>
                        media_type d = in_media_type (snd w) \<and> encoding d = in_encoding (snd w))
           (fst (writeArtifacts h s (w # ws)))"
proof -
  let ?H = "sha256Hex h b"
  let ?pair = "\<lambda>r. (ref_trace_id r, ref_producer_event_id r)"
  let ?ipair = "\<lambda>w. (in_trace_id (snd w), in_producer_event_id (snd w))"
  let ?r1 = "writeArtifact h s (fst w) (snd w)"
  let ?new = "\<lparr>ref_trace_id = in_trace_id (snd w), ref_producer_event_id = in_producer_event_id (snd w),
                ref_created_at = fst w\<rparr>"
  have bw: "in_bytes (snd w) = b" and rest: "list_all (\<lambda>w. sha256Hex h (in_bytes (snd w)) = ?H) ws"
    using same by (auto simp: list_all_iff)
  obtain sc1 where sc1: "meta_files (snd ?r1) = (meta_files s)(?H \<mapsto> sc1)"
      "references sc1 = Some [?new]" "created_at sc1 = fst w" "byte_size sc1 = length b"
      "media_type sc1 = in_media_type (snd w)" "encoding sc1 = in_encoding (snd w)"
    using fresh bw
    by (simp add: writeArtifact_def Let_def artifact_descriptor.extend_def artifact_sidecar.fields_def)
  have blob1: "blob_files (snd ?r1) = (blob_files s)(?H \<mapsto> b)"
    using fresh bw by (simp add: writeArtifact_def Let_def)
  have d1: "created_at (fst ?r1) = fst w" "byte_size (fst ?r1) = length b"
    "media_type (fst ?r1) = in_media_type (snd w)" "encoding (fst ?r1) = in_encoding (snd w)"
    using fresh bw by (simp_all add: writeArtifact_def Let_def)
  have m1: "meta_files (snd ?r1) ?H = Some sc1" using sc1(1) by simp
  have b1: "blob_files (snd ?r1) ?H = Some b" using blob1 by simp
  have dist1: "distinct (map ?pair [?new])" by simp
  note inv = writeArtifacts_linked [OF m1 sc1(2) b1 dist1 rest]
  have unfold: "writeArtifacts h s (w # ws) =
      (fst ?r1 # fst (writeArtifacts h (snd ?r1) ws), snd (writeArtifacts h (snd ?r1) ws))"
    by (simp split: prod.splits)
  from inv obtain sc' refs' where final:
    "meta_files (snd (writeArtifacts h (snd ?r1) ws)) ?H = Some sc'"
    "references sc' = Some refs'"
    "distinct (map ?pair refs')"
    "set (map ?pair refs') = set (map ?pair [?new]) \<union> set (map ?ipair ws)"
    by blast
  have seteq: "set (map ?pair refs') = set (map ?ipair (w # ws))"
    using final(4) by simp
  have len: "length refs' = card (set (map ?ipair (w # ws)))"
    using distinct_card [OF final(3)] seteq by simp
  have len2: "distinct (map ?ipair (w # ws)) \<longrightarrow> length refs' = length (w # ws)"
    using len distinct_card [of "map ?ipair (w # ws)"] by auto
  have refs_part: "\<exists>sc refs.
            meta_files (snd (writeArtifacts h s (w # ws))) ?H = Some sc \<and>
            references sc = Some refs \<and>
            distinct (map ?pair refs) \<and>
            set (map ?pair refs) = set (map ?ipair (w # ws)) \<and>
            length refs = card (set (map ?ipair (w # ws))) \<and>
            (distinct (map ?ipair (w # ws)) \<longrightarrow> length refs = length (w # ws))"
    unfolding unfold using final(1-3) seteq len len2 by auto
  have blob_part: "blob_files (snd (writeArtifacts h s (w # ws))) ?H = Some b"
    unfolding unfold using inv b1 by simp
  have frame_part: "\<forall>k. k \<noteq> ?H \<longrightarrow>
            blob_files (snd (writeArtifacts h s (w # ws))) k = blob_files s k \<and>
            meta_files (snd (writeArtifacts h s (w # ws))) k = meta_files s k"
    unfolding unfold using inv blob1 sc1(1) by simp
  have desc_part: "list_all (\<lambda>d. created_at d = fst w \<and> byte_size d = length b \<and>
                        media_type d = in_media_type (snd w) \<and> encoding d = in_encoding (snd w))
           (fst (writeArtifacts h s (w # ws)))"
    unfolding unfold using inv d1 sc1(3-6) by simp
  from blob_part frame_part refs_part desc_part show ?thesis by blast
qed

theorem writeArtifact_dedup_witness:
  "meta_files emptyHome (sha256Hex exampleHost (in_bytes exampleArtifactInput)) = None \<and>
   blob_files emptyHome (sha256Hex exampleHost (in_bytes exampleArtifactInput)) = None \<and>
   list_all (\<lambda>w. in_bytes (snd w) = in_bytes exampleArtifactInput)
     [(exampleNow, exampleArtifactInput), (''2024-01-02T00:00:00.000Z'', secondArtifactInput)] \<and>
   blob_files (snd (writeArtifacts exampleHost emptyHome
       [(exampleNow, exampleArtifactInput), (''2024-01-02T00:00:00.000Z'', secondArtifactInput)]))
     (sha256Hex exampleHost (in_bytes exampleArtifactInput)) = Some (in_bytes exampleArtifactInput) \<and>
   list_all (\<lambda>d. created_at d = exampleNow)
     (fst (writeArtifacts exampleHost emptyHome
        [(exampleNow, exampleArtifactInput), (''2024-01-02T00:00:00.000Z'', secondArtifactInput)]))"
proof -
  have h1: "meta_files emptyHome (sha256Hex exampleHost (in_bytes exampleArtifactInput)) = None"
    and h2: "blob_files emptyHome (sha256Hex exampleHost (in_bytes exampleArtifactInput)) = None"
    by (simp_all add: emptyHome_def)
  have h3: "list_all (\<lambda>w. in_bytes (snd w) = in_bytes exampleArtifactInput)
     [(exampleNow, exampleArtifactInput), (''2024-01-02T00:00:00.000Z'', secondArtifactInput)]"
    by (simp add: secondArtifactInput_def)
  from writeArtifact_dedup [OF h1 h2 h3] h1 h2 h3 show ?thesis
    by (simp add: list_all_iff)
qed

section \<open>Properties of the verifier\<close>

subsection \<open>The event hash\<close>

lemma restWithout_idem:
  "restWithout k v = Inr r \<Longrightarrow> restWithout k r = Inr r"
  by (cases v) auto

lemma hashStep_computeEventHash:
  "hashStep h event st =
     (case computeEventHash h event of
        Inl e \<Rightarrow> Inl e
      | Inr recomputed \<Rightarrow>
          Inr (if getOpt ''event_hash'' event \<noteq> JStr recomputed
               then pushFailure (failure HASH_MISMATCH Critical CHK_EVENT_HASH_INTEGRITY
                                   (getOpt ''event_id'' event) JUndefined) st
               else st))"
proof (cases "restWithout ''event_hash'' event")
  case (Inl e)
  then show ?thesis by (simp add: hashStep_def computeEventHash_def bindE_def)
next
  case (Inr r)
  have eq: "strictEq (JStr x) w \<longleftrightarrow> w = JStr x" for x w by auto
  from Inr restWithout_idem [OF Inr] show ?thesis
    by (auto simp: hashStep_def computeEventHash_def bindE_def eq split: sum.splits)
qed

lemma hashStep_state:
  "hashStep h event st = Inr st' \<Longrightarrow>
   st' = st\<lparr>v_failures := v_failures st @
            (if hashMismatch h event
             then [failure HASH_MISMATCH Critical CHK_EVENT_HASH_INTEGRITY
                     (getOpt ''event_id'' event) JUndefined]
             else [])\<rparr>"
  by (auto simp: hashStep_computeEventHash hashMismatch_def pushFailure_def split: sum.splits if_splits)

lemma foldE_hashStep:
  "list_all (\<lambda>e. \<exists>r. computeEventHash h e = Inr r) events \<Longrightarrow>
   foldE (hashStep h) events st =
     Inr (st\<lparr>v_failures := v_failures st @
            map (\<lambda>e. failure HASH_MISMATCH Critical CHK_EVENT_HASH_INTEGRITY (getOpt ''event_id'' e) JUndefined)
              (filter (hashMismatch h) events)\<rparr>)"
proof (induction events arbitrary: st)
  case Nil
  show ?case by simp
next
  case (Cons e es)
  then obtain r where r: "computeEventHash h e = Inr r" by auto
  have rest: "list_all (\<lambda>e. \<exists>r. computeEventHash h e = Inr r) es" using Cons.prems by simp
  show ?case
    using r Cons.IH [OF rest]
    by (simp add: hashStep_computeEventHash hashMismatch_def pushFailure_def)
qed

lemma computeEventHash_returns:
  "restWithout ''event_hash'' e = Inr r \<Longrightarrow> canonicalizable r \<Longrightarrow> \<exists>x. computeEventHash h e = Inr x"
  using canonicalize_returns_iff [of h r] by (auto simp: computeEventHash_def bindE_def)

lemma canonicalizable_rest:
  assumes "canonicalizable e" and "restWithout k e = Inr r"
  shows "canonicalizable r"
proof (cases e)
  case (JArr xs)
  have "set (indexed xs) \<subseteq> UNIV \<times> set xs"
    by (auto simp: indexed_def dest: set_zip_rightD)
  with assms JArr show ?thesis by (fastforce simp: list_all_iff)
next
  case (JStr t)
  with assms show ?thesis by (auto simp: list_all_iff indexed_def dest!: set_zip_rightD)
qed (use assms in \<open>auto simp: list_all_iff\<close>)

lemma computeEventHash_canonicalizable:
  assumes "canonicalizable e" and "e \<noteq> JNull"
  shows "\<exists>x. computeEventHash h e = Inr x"
proof -
  from assms obtain r where r: "restWithout ''event_hash'' e = Inr r" by (cases e) auto
  from computeEventHash_returns [OF r canonicalizable_rest [OF assms(1) r]] show ?thesis .
qed

lemma chkEventHashIntegrity_state:
  assumes "list_all (\<lambda>e. \<exists>r. computeEventHash h e = Inr r) events"
  shows "chkEventHashIntegrity h events st =
     Inr (st\<lparr>v_failures := v_failures st @
                map (\<lambda>e. failure HASH_MISMATCH Critical CHK_EVENT_HASH_INTEGRITY
                            (getOpt ''event_id'' e) JUndefined)
                  (filter (hashMismatch h) events),
              v_checks := v_checks st @
                [\<lparr>check_id = CHK_EVENT_HASH_INTEGRITY,
                  check_status = (if stepFailed CHK_EVENT_HASH_INTEGRITY st \<or> list_ex (hashMismatch h) events
                                  then Fail else Pass)\<rparr>]\<rparr>)"
proof -
  let ?f = "\<lambda>e. failure HASH_MISMATCH Critical CHK_EVENT_HASH_INTEGRITY (getOpt ''event_id'' e) JUndefined"
  let ?st = "st\<lparr>v_failures := v_failures st @ map ?f (filter (hashMismatch h) events)\<rparr>"
  have "stepFailed CHK_EVENT_HASH_INTEGRITY ?st \<longleftrightarrow>
        stepFailed CHK_EVENT_HASH_INTEGRITY st \<or> list_ex (hashMismatch h) events"
    by (force simp: stepFailed_def failure_def list_ex_iff)
  then show ?thesis
    unfolding chkEventHashIntegrity_def startCheck_def foldE_hashStep [OF assms]
    by (simp add: bindE_def failOrPass_def)
qed

lemma buildSignedEvent_hash:
  assumes "buildSignedEvent h inp = Inr event"
  shows "\<exists>r. computeEventHash h event = Inr r \<and> getOpt ''event_hash'' event = JStr r"
proof -
  from assms obtain unsigned signature eventHash where
    eh: "computeEventHash h (JObj (unsigned @ [(''signature'', signature)])) = Inr eventHash" and
    un: "unsignedFields h inp = Inr unsigned" and
    ev: "event = JObj (unsigned @ [(''signature'', signature), (''event_hash'', JStr eventHash)])"
    by (auto simp: buildSignedEvent_def bindE_def Let_def split: sum.splits)
  from un have nk: "map_of unsigned ''event_hash'' = None"
    by (auto simp: unsignedFields_def bindE_def split: sum.splits)
  have "computeEventHash h event = Inr eventHash"
    using eh unfolding ev computeEventHash_def by simp
  moreover have "getOpt ''event_hash'' event = JStr eventHash"
    unfolding ev using nk by (simp add: getOpt_def ownProp_def map_add_def)
  ultimately show ?thesis by blast
qed

lemma list_all_replicate [simp]: "list_all P (replicate n x) = (n = 0 \<or> P x)"
  by (induction n) auto

declare canonicalize.simps [simp del]

lemma computeEventHash_example:
  "canonicalizable (JObj kvs) \<Longrightarrow> computeEventHash exampleHost (JObj kvs) = Inr GENESIS_PREV_HASH"
proof -
  assume "canonicalizable (JObj kvs)"
  then have "canonicalizable (JObj (filter (\<lambda>kv. fst kv \<noteq> ''event_hash'') kvs))"
    by (auto simp: list_all_iff)
  then show ?thesis
    unfolding computeEventHash_def
    by (simp add: canonicalize_canonicalText bindE_def exampleHost_def exampleDigest_def)
qed

lemma hashCanonical_example:
  "canonicalizable v \<Longrightarrow> hashCanonical exampleHost v = Inr GENESIS_PREV_HASH"
  by (simp add: hashCanonical_def canonicalize_canonicalText bindE_def exampleHost_def exampleDigest_def)

lemma signBytes_example:
  "signBytes exampleHost key bytes =
     Inr (JObj [(''algorithm'', JStr SIGNATURE_ALGORITHM),
                (''signature_b64'', JStr (key @ '':'' @ GENESIS_PREV_HASH)),
                (''signed_bytes_hash'', JStr GENESIS_PREV_HASH)])"
  by (simp add: signBytes_def exampleHost_def exampleSign_def exampleDigest_def)

lemma canonicalSignedBytes_example:
  assumes "canonicalizable actor" and "list_all canonicalizable artifacts"
  shows "\<exists>bytes. canonicalSignedBytes exampleHost
     (JObj [(''schema_version'', JStr sv), (''trace_id'', JStr tid),
               (''event_id'', JStr eid), (''event_type'', JStr ty),
               (''created_at'', JStr ca), (''actor'', actor),
               (''payload_hash'', JStr ph),
               (''prev_event_hash'', JStr prev),
               (''payload_type'', JStr pt), (''payload'', payload),
               (''claims'', JArr (map JStr claims)),
               (''artifacts'', JArr artifacts)]) = Inr bytes"
  using assms
  by (simp add: canonicalSignedBytes_def extractSignedPayload_def signedFields_def ownProp_def
      bindE_def canonicalize_canonicalText list_all_iff)

lemma buildSignedEvent_example:
  assumes "canonicalizable (bi_payload inp)" and "canonicalizable (bi_actor inp)"
    and "list_all canonicalizable (bi_artifacts inp)"
  shows "buildSignedEvent exampleHost inp =
     Inr (JObj [(''schema_version'', JStr SCHEMA_VERSION), (''trace_id'', JStr (bi_trace_id inp)),
               (''event_id'', JStr (bi_event_id inp)), (''event_type'', JStr (bi_event_type inp)),
               (''created_at'', JStr (bi_created_at inp)), (''actor'', bi_actor inp),
               (''payload_hash'', JStr GENESIS_PREV_HASH),
               (''prev_event_hash'', JStr (bi_prev_event_hash inp)),
               (''payload_type'', JStr (bi_payload_type inp)), (''payload'', bi_payload inp),
               (''claims'', JArr (map JStr (bi_claims inp))),
               (''artifacts'', JArr (bi_artifacts inp)),
               (''signature'',
                JObj [(''algorithm'', JStr SIGNATURE_ALGORITHM),
                      (''signature_b64'', JStr (bi_private_key_pem inp @ '':'' @ GENESIS_PREV_HASH)),
                      (''signed_bytes_hash'', JStr GENESIS_PREV_HASH)]),
               (''event_hash'', JStr GENESIS_PREV_HASH)])"
proof -
  let ?unsigned = "[(''schema_version'', JStr SCHEMA_VERSION), (''trace_id'', JStr (bi_trace_id inp)),
               (''event_id'', JStr (bi_event_id inp)), (''event_type'', JStr (bi_event_type inp)),
               (''created_at'', JStr (bi_created_at inp)), (''actor'', bi_actor inp),
               (''payload_hash'', JStr GENESIS_PREV_HASH),
               (''prev_event_hash'', JStr (bi_prev_event_hash inp)),
               (''payload_type'', JStr (bi_payload_type inp)), (''payload'', bi_payload inp),
               (''claims'', JArr (map JStr (bi_claims inp))),
               (''artifacts'', JArr (bi_artifacts inp))]"
  have u: "unsignedFields exampleHost inp = Inr ?unsigned"
    using assms(1) by (simp add: unsignedFields_def hashCanonical_example bindE_def)
  obtain bytes where b: "canonicalSignedBytes exampleHost (JObj ?unsigned) = Inr bytes"
    using canonicalSignedBytes_example [OF assms(2) assms(3)] by blast
  have e: "computeEventHash exampleHost
             (JObj (?unsigned @ [(''signature'',
                JObj [(''algorithm'', JStr SIGNATURE_ALGORITHM),
                      (''signature_b64'', JStr (bi_private_key_pem inp @ '':'' @ GENESIS_PREV_HASH)),
                      (''signed_bytes_hash'', JStr GENESIS_PREV_HASH)])])) = Inr GENESIS_PREV_HASH"
    by (rule computeEventHash_example) (use assms in \<open>simp add: list_all_iff\<close>)
  show ?thesis
    using e by (simp add: buildSignedEvent_def bindE_def u b signBytes_example Let_def)
qed

lemma buildSignedEvent_proposalEvent:
  "buildSignedEvent exampleHost
     (exampleInput ''01JZ5G4JYV7RS6P7Q1R66RHC01'' ''proposal_created'' ''planner''
        (JObj [(''objective'', JStr ''demo'')]) [] []) = Inr proposalEvent"
  by (subst buildSignedEvent_example)
     (simp_all add: exampleInput_def proposalEvent_def exampleEvent_def exampleActor_def)

lemma proposalEvent_canonicalizable: "canonicalizable proposalEvent"
  by (simp add: proposalEvent_def exampleEvent_def exampleActor_def)

lemma proposalEvent_not_null: "proposalEvent \<noteq> JNull"
  by (simp add: proposalEvent_def exampleEvent_def)

lemma hashMismatch_empty_object: "hashMismatch exampleHost (JObj [])"
  by (simp add: hashMismatch_def computeEventHash_def bindE_def canonicalize_canonicalText
      getOpt_def ownProp_def)

text \<open>
  Claim C2. CHK_EVENT_HASH_INTEGRITY recomputes, for every event, the SHA-256 digest of
  the canonical text of the event without its \<^verbatim>\<open>event_hash\<close> field (the signature
  stays in), and compares it with the stored \<^verbatim>\<open>event_hash\<close>. On a snapshot of JSON
  values other than \<^verbatim>\<open>null\<close> the check returns, and the failures it adds are one
  HASH_MISMATCH of severity critical, carrying the event id, for each event whose stored
  hash is not the recomputed one, and no other; the check fails when there is such an
  event and passes otherwise. An event returned by \<^verbatim>\<open>buildSignedEvent\<close> has no
  mismatch, so the check adds nothing for it.
\<close>

theorem event_hash_integrity:
  "(hashMismatch h event \<longleftrightarrow>
      (\<exists>withoutHash bytes. restWithout ''event_hash'' event = Inr withoutHash \<and>
          canonicalize h withoutHash = Inr bytes \<and>
          getOpt ''event_hash'' event \<noteq> JStr (sha256Hex h bytes))) \<and>
   restWithout ''event_hash'' (JObj kvs) = Inr (JObj (filter (\<lambda>kv. fst kv \<noteq> ''event_hash'') kvs)) \<and>
   (list_all (\<lambda>e. canonicalizable e \<and> e \<noteq> JNull) events \<longrightarrow>
      chkEventHashIntegrity h events st =
        Inr (st\<lparr>v_failures := v_failures st @
                   map (\<lambda>e. failure HASH_MISMATCH Critical CHK_EVENT_HASH_INTEGRITY
                               (getOpt ''event_id'' e) JUndefined)
                     (filter (hashMismatch h) events),
                 v_checks := v_checks st @
                   [\<lparr>check_id = CHK_EVENT_HASH_INTEGRITY,
                     check_status = (if stepFailed CHK_EVENT_HASH_INTEGRITY st \<or> list_ex (hashMismatch h) events
                                     then Fail else Pass)\<rparr>]\<rparr>)) \<and>
   (buildSignedEvent h inp = Inr built \<longrightarrow>
      \<not> hashMismatch h built \<and> hashStep h built st = Inr st)"
proof (intro conjI impI)
  show "hashMismatch h event \<longleftrightarrow>
      (\<exists>withoutHash bytes. restWithout ''event_hash'' event = Inr withoutHash \<and>
          canonicalize h withoutHash = Inr bytes \<and>
          getOpt ''event_hash'' event \<noteq> JStr (sha256Hex h bytes))"
    by (auto simp: hashMismatch_def computeEventHash_def bindE_def split: sum.splits)
next
  show "restWithout ''event_hash'' (JObj kvs) = Inr (JObj (filter (\<lambda>kv. fst kv \<noteq> ''event_hash'') kvs))"
    by simp
next
  assume "list_all (\<lambda>e. canonicalizable e \<and> e \<noteq> JNull) events"
  then have "list_all (\<lambda>e. \<exists>r. computeEventHash h e = Inr r) events"
    by (auto simp: list_all_iff intro: computeEventHash_canonicalizable)
  from chkEventHashIntegrity_state [OF this]
  show "chkEventHashIntegrity h events st =
        Inr (st\<lparr>v_failures := v_failures st @
                   map (\<lambda>e. failure HASH_MISMATCH Critical CHK_EVENT_HASH_INTEGRITY
                               (getOpt ''event_id'' e) JUndefined)
                     (filter (hashMismatch h) events),
                 v_checks := v_checks st @
                   [\<lparr>check_id = CHK_EVENT_HASH_INTEGRITY,
                     check_status = (if stepFailed CHK_EVENT_HASH_INTEGRITY st \<or> list_ex (hashMismatch h) events
                                     then Fail else Pass)\<rparr>]\<rparr>)" .
next
  assume b: "buildSignedEvent h inp = Inr built"
  from buildSignedEvent_hash [OF b] show "\<not> hashMismatch h built"
    by (auto simp: hashMismatch_def)
  from buildSignedEvent_hash [OF b] show "hashStep h built st = Inr st"
    by (auto simp: hashStep_computeEventHash)
qed

theorem event_hash_integrity_witness:
  "hashMismatch exampleHost (JObj []) \<and>
   list_all (\<lambda>e. canonicalizable e \<and> e \<noteq> JNull) [proposalEvent, JObj []] \<and>
   chkEventHashIntegrity exampleHost [proposalEvent, JObj []] initialState =
     Inr (initialState
           \<lparr>v_failures := [failure HASH_MISMATCH Critical CHK_EVENT_HASH_INTEGRITY JUndefined JUndefined],
            v_checks := [\<lparr>check_id = CHK_EVENT_HASH_INTEGRITY, check_status = Fail\<rparr>]\<rparr>) \<and>
   buildSignedEvent exampleHost
     (exampleInput ''01JZ5G4JYV7RS6P7Q1R66RHC01'' ''proposal_created'' ''planner''
        (JObj [(''objective'', JStr ''demo'')]) [] []) = Inr proposalEvent \<and>
   \<not> hashMismatch exampleHost proposalEvent \<and>
   hashStep exampleHost proposalEvent initialState = Inr initialState"
  using event_hash_integrity [of exampleHost "JObj []" "[]" "[proposalEvent, JObj []]" initialState
      "exampleInput ''01JZ5G4JYV7RS6P7Q1R66RHC01'' ''proposal_created'' ''planner''
         (JObj [(''objective'', JStr ''demo'')]) [] []" proposalEvent]
    proposalEvent_canonicalizable proposalEvent_not_null buildSignedEvent_proposalEvent hashMismatch_empty_object
  by (simp add: initialState_def getOpt_def ownProp_def)

subsection \<open>CHK_FINALIZATION_INTEGRITY\<close>

lemma get_returns: "e \<noteq> JNull \<Longrightarrow> e \<noteq> JUndefined \<Longrightarrow> get k e = Inr (getOpt k e)"
  by (cases e) (auto simp: getOpt_def)

lemma strictEq_JStr: "strictEq v (JStr t) \<longleftrightarrow> v = JStr t"
  by (cases v) auto

lemma findIndexFrom_returns:
  assumes "list_all (\<lambda>e. e \<noteq> JNull \<and> e \<noteq> JUndefined) events"
  shows "\<exists>r. findIndexFrom i ty events = Inr r \<and>
           (r = None \<longleftrightarrow> \<not> list_ex (\<lambda>e. getOpt ''event_type'' e = JStr ty) events)"
  using assms
proof (induction events arbitrary: i)
  case Nil
  show ?case by simp
next
  case (Cons e es)
  then have g: "get ''event_type'' e = Inr (getOpt ''event_type'' e)" by (simp add: get_returns)
  from Cons.prems have "list_all (\<lambda>e. e \<noteq> JNull \<and> e \<noteq> JUndefined) es" by simp
  from Cons.IH [OF this, of "Suc i"] show ?case by (auto simp: g strictEq_JStr)
qed

text \<open>
  Claim C6, as stated, asks the check to reject a snapshot with two or more
  \<^verbatim>\<open>final_statement_signed\<close> events. The check looks for the first such event only
  (\<^verbatim>\<open>findIndex\<close>): on the clean trace with a second final statement it adds no failure
  and its status is pass.
\<close>

theorem two_final_statements_are_accepted:
  "length (filter (\<lambda>e. getOpt ''event_type'' e = JStr ''final_statement_signed'') twoFinalsTrace) = 2 \<and>
   chkFinalizationIntegrity False twoFinalsTrace initialState =
     Inr (initialState\<lparr>v_checks := [\<lparr>check_id = CHK_FINALIZATION_INTEGRITY, check_status = Pass\<rparr>]\<rparr>)"
  by (simp add: twoFinalsTrace_def proposalEvent_def claimEvent_def finalEvent_def secondFinalEvent_def
      startedEvent_def completedEvent_def exampleEvent_def getOpt_def ownProp_def
      chkFinalizationIntegrity_def startCheck_def finalizationOperation_def bindE_def Let_def
      initialState_def stepFailed_def)

text \<open>
  Claim C6, amended. CHK_FINALIZATION_INTEGRITY requires that at least one
  \<^verbatim>\<open>final_statement_signed\<close> event is present: on a snapshot of events other than
  \<^verbatim>\<open>null\<close> the check returns; when the snapshot has no such event it adds a
  SCHEMA_INVALID failure of severity medium and its status is fail; when the snapshot has
  a final statement, a \<^verbatim>\<open>verification_run_started\<close> and a
  \<^verbatim>\<open>verification_run_completed\<close> event it adds no SCHEMA_INVALID failure, however many
  final statements there are.
\<close>

theorem finalization_requires_a_final_statement:
  assumes "list_all (\<lambda>e. e \<noteq> JNull \<and> e \<noteq> JUndefined) events"
  shows "\<exists>st'. chkFinalizationIntegrity allow events st = Inr st' \<and>
     (\<not> list_ex (\<lambda>e. getOpt ''event_type'' e = JStr ''final_statement_signed'') events \<longrightarrow>
        failure SCHEMA_INVALID Medium CHK_FINALIZATION_INTEGRITY JUndefined JUndefined
          \<in> set (v_failures st') \<and>
        last (v_checks st') = \<lparr>check_id = CHK_FINALIZATION_INTEGRITY, check_status = Fail\<rparr>) \<and>
     (list_ex (\<lambda>e. getOpt ''event_type'' e = JStr ''final_statement_signed'') events \<and>
      list_ex (\<lambda>e. getOpt ''event_type'' e = JStr ''verification_run_started'') events \<and>
      list_ex (\<lambda>e. getOpt ''event_type'' e = JStr ''verification_run_completed'') events \<longrightarrow>
        filter (\<lambda>f. failure_code f = SCHEMA_INVALID) (v_failures st') =
        filter (\<lambda>f. failure_code f = SCHEMA_INVALID) (v_failures st))"
proof -
  obtain f where f: "findIndexFrom 0 ''final_statement_signed'' events = Inr f"
    and fN: "f = None \<longleftrightarrow> \<not> list_ex (\<lambda>e. getOpt ''event_type'' e = JStr ''final_statement_signed'') events"
    using findIndexFrom_returns [OF assms] by blast
  obtain c where c: "findIndexFrom 0 ''verification_run_completed'' events = Inr c"
    and cN: "c = None \<longleftrightarrow> \<not> list_ex (\<lambda>e. getOpt ''event_type'' e = JStr ''verification_run_completed'') events"
    using findIndexFrom_returns [OF assms] by blast
  obtain s where s: "findIndexFrom 0 ''verification_run_started'' events = Inr s"
    and sN: "s = None \<longleftrightarrow> \<not> list_ex (\<lambda>e. getOpt ''event_type'' e = JStr ''verification_run_started'') events"
    using findIndexFrom_returns [OF assms] by blast
  obtain st4 where op: "finalizationOperation allow events st = Inr st4"
    by (simp add: finalizationOperation_def f c s bindE_def Let_def)
  have none: "f = None \<Longrightarrow>
      failure SCHEMA_INVALID Medium CHK_FINALIZATION_INTEGRITY JUndefined JUndefined \<in> set (v_failures st4)"
    using op by (auto simp: finalizationOperation_def f c s bindE_def Let_def pushFailure_def pushWarning_def)
  have some: "f \<noteq> None \<Longrightarrow> s \<noteq> None \<Longrightarrow> c \<noteq> None \<Longrightarrow>
      filter (\<lambda>f. failure_code f = SCHEMA_INVALID) (v_failures st4) =
      filter (\<lambda>f. failure_code f = SCHEMA_INVALID) (v_failures st)"
    using op by (auto simp: finalizationOperation_def f c s bindE_def Let_def pushFailure_def failure_def)
  have failed: "f = None \<Longrightarrow> stepFailed CHK_FINALIZATION_INTEGRITY st4"
    using none by (force simp: stepFailed_def list_ex_iff failure_def)
  show ?thesis
    using none some failed fN sN cN
    by (simp add: chkFinalizationIntegrity_def startCheck_def op bindE_def)
qed

theorem finalization_requires_a_final_statement_witness:
  "list_all (\<lambda>e. e \<noteq> JNull \<and> e \<noteq> JUndefined) [startedEvent, completedEvent] \<and>
   \<not> list_ex (\<lambda>e. getOpt ''event_type'' e = JStr ''final_statement_signed'')
        [startedEvent, completedEvent] \<and>
   (\<exists>st'. chkFinalizationIntegrity False [startedEvent, completedEvent] initialState = Inr st' \<and>
      failure SCHEMA_INVALID Medium CHK_FINALIZATION_INTEGRITY JUndefined JUndefined
        \<in> set (v_failures st') \<and>
      last (v_checks st') = \<lparr>check_id = CHK_FINALIZATION_INTEGRITY, check_status = Fail\<rparr>)"
  using finalization_requires_a_final_statement [of "[startedEvent, completedEvent]" False initialState]
  by (simp add: startedEvent_def completedEvent_def exampleEvent_def getOpt_def ownProp_def)

subsection \<open>Exceptions of the verifier\<close>

lemma foldE_raises:
  assumes "x \<in> set xs" and "\<And>st. \<exists>e. f x st = Inl e"
  shows "\<exists>e. foldE f xs st = Inl e"
  using assms(1)
proof (induction xs arbitrary: st)
  case Nil
  then show ?case by simp
next
  case (Cons y ys)
  show ?case
  proof (cases "f y st")
    case (Inl e)
    then show ?thesis by simp
  next
    case (Inr st')
    show ?thesis
    proof (cases "x = y")
      case True
      with assms(2) [of st] Inr show ?thesis by simp
    next
      case False
      with Cons.prems have "x \<in> set ys" by simp
      from Cons.IH [OF this, of st'] Inr show ?thesis by simp
    qed
  qed
qed

lemma keyStatusStep_raises:
  assumes "nullish (getOpt ''actor'' event)"
  shows "keyStatusStep ids event st = Inl TypeError"
proof (cases "get ''actor'' event")
  case (Inl e)
  then have "e = TypeError" by (cases event) auto
  with Inl show ?thesis by (simp add: keyStatusStep_def bindE_def)
next
  case (Inr actor)
  with assms have "actor = JUndefined \<or> actor = JNull" by (simp add: getOpt_def nullish_def)
  then have "get ''key_id'' actor = Inl TypeError" by auto
  with Inr show ?thesis by (simp add: keyStatusStep_def bindE_def)
qed

lemma chkKeyStatus_raises:
  assumes "event \<in> set events" and "nullish (getOpt ''actor'' event)"
  shows "\<exists>e. chkKeyStatus ids events st = Inl e"
proof -
  from foldE_raises [of event events "keyStatusStep ids" st] assms
  obtain e where "foldE (keyStatusStep ids) events st = Inl e"
    by (auto simp: keyStatusStep_raises)
  then show ?thesis by (simp add: chkKeyStatus_def startCheck_def bindE_def)
qed

lemma bindE_raises: "(\<And>v. \<exists>e. f v = Inl e) \<Longrightarrow> \<exists>e. bindE m f = Inl e"
  by (cases m) (auto simp: bindE_def)

lemma bindE_raises_first: "\<exists>e. m = Inl e \<Longrightarrow> \<exists>e. bindE m f = Inl e"
  by (auto simp: bindE_def)

lemma runChecks_raises:
  assumes "event \<in> set events" and "nullish (getOpt ''actor'' event)"
  shows "\<exists>e. runChecks h s traceId profile allow events = Inl e"
proof -
  have k: "\<exists>e. chkKeyStatus (identities s) events st = Inl e" for st
    using chkKeyStatus_raises [OF assms] by blast
  show ?thesis
    unfolding runChecks_def
    by (rule bindE_raises, rule bindE_raises, rule bindE_raises, rule bindE_raises,
        rule bindE_raises_first, rule k)
qed

lemma readEvents_committedHome:
  "readEvents exampleHost committedHome exampleTraceId True = ([JObj []], committedHome)"
  by (simp add: ledger_example_defs readEvents_eval emptyHome_def exampleHost_def exampleParse_def)

lemma runChecks_empty_object:
  "runChecks exampleHost s exampleTraceId profile allow [JObj []] = Inl TypeError"
proof -
  obtain st1 where 1: "chkSchemaConformance exampleTraceId [JObj []] initialState = Inr st1"
    by (simp add: chkSchemaConformance_def startCheck_def schemaStep_def bindE_def ownProp_def
        protocolEventSchema_def zString_def)
  have "list_all (\<lambda>e. \<exists>r. computeEventHash exampleHost e = Inr r) [JObj []]"
    by (simp add: computeEventHash_example)
  from chkEventHashIntegrity_state [OF this]
  obtain st2 where 2: "chkEventHashIntegrity exampleHost [JObj []] st1 = Inr st2" by blast
  obtain st3 where 3: "chkChainContinuity [JObj []] st2 = Inr st3"
    by (simp add: chkChainContinuity_def startCheck_def bindE_def ownProp_def)
  obtain st4 where 4: "chkSignatureValidity exampleHost (identities s) [JObj []] st3 = Inr st4"
    by (simp add: chkSignatureValidity_def startCheck_def signatureStep_def bindE_def ownProp_def
        hasString_def)
  have 5: "chkKeyStatus (identities s) [JObj []] st4 = Inl TypeError"
    by (simp add: chkKeyStatus_def startCheck_def keyStatusStep_def bindE_def ownProp_def)
  show ?thesis
    by (simp add: runChecks_def bindE_def 1 2 3 4 5)
qed

text \<open>
  Claim C8 says that \<^verbatim>\<open>verifyTrace\<close> returns a report whatever the events file holds,
  and raises only for infrastructure errors. CHK_KEY_STATUS reads
  \<^verbatim>\<open>event.actor.key_id\<close> of every event of the snapshot, whether or not the event passed
  CHK_SCHEMA_CONFORMANCE: when the metadata file exists and the events file has a line
  whose value has no \<^verbatim>\<open>actor\<close> (or is \<^verbatim>\<open>null\<close>), \<^verbatim>\<open>verifyTrace\<close> raises and
  returns no report. On the events file \<^verbatim>\<open>{}\<close> it raises a TypeError.
\<close>

theorem verifier_raises_on_an_event_without_actor:
  assumes "trace_meta s (vi_trace_id input) = Some trace"
    and "event \<in> set (fst (readEvents h s (vi_trace_id input) True))"
    and "nullish (getOpt ''actor'' event)"
  shows "\<exists>e. fst (verifyTrace h s input) = Inl e"
proof -
  obtain events s1 where r: "readEvents h s (vi_trace_id input) True = (events, s1)"
    by (cases "readEvents h s (vi_trace_id input) True")
  with assms(2) have "event \<in> set events" by simp
  then have "\<exists>e. verifyEvents h s1 trace input events = Inl e"
    unfolding verifyEvents_def Let_def
    by (intro bindE_raises_first runChecks_raises [OF _ assms(3)])
  then show ?thesis
    by (auto simp: verifyTrace_def assms(1) r)
qed

theorem verifier_raises_on_an_event_without_actor_witness:
  "trace_meta committedHome (vi_trace_id (exampleVerifyInput None)) = Some exampleSession \<and>
   events_file committedHome exampleTraceId = Some (''{}'' @ [CHR 0x0A]) \<and>
   JObj [] \<in> set (fst (readEvents exampleHost committedHome (vi_trace_id (exampleVerifyInput None)) True)) \<and>
   nullish (getOpt ''actor'' (JObj [])) \<and>
   fst (verifyTrace exampleHost committedHome (exampleVerifyInput None)) = Inl TypeError"
proof -
  have m: "trace_meta committedHome (vi_trace_id (exampleVerifyInput None)) = Some exampleSession"
    and f: "events_file committedHome exampleTraceId = Some (''{}'' @ [CHR 0x0A])"
    and i: "vi_trace_id (exampleVerifyInput None) = exampleTraceId"
    and m': "trace_meta committedHome exampleTraceId = Some exampleSession"
    by (simp_all add: committedHome_def emptyHome_def exampleVerifyInput_def)
  have e: "JObj [] \<in> set (fst (readEvents exampleHost committedHome (vi_trace_id (exampleVerifyInput None)) True))"
    by (simp add: i readEvents_committedHome)
  have n: "nullish (getOpt ''actor'' (JObj []))"
    by (simp add: nullish_def getOpt_def ownProp_def)
  have t: "fst (verifyTrace exampleHost committedHome (exampleVerifyInput None)) = Inl TypeError"
    using verifier_raises_on_an_event_without_actor [OF m e n]
    by (simp add: verifyTrace_def m' i readEvents_committedHome verifyEvents_def Let_def
        runChecks_empty_object bindE_def)
  from m f e n t show ?thesis by blast
qed

subsection \<open>What the checks add to the failures and the warnings\<close>

lemma growsI:
  assumes "v_failures st' = v_failures st @ F" and "list_all P F"
    and "v_warnings st' = v_warnings st @ W" and "list_all Q W"
  shows "grows P Q st st'"
  using assms by (simp add: grows_def)

lemma growsE:
  assumes "grows P Q st st'"
  obtains F W where "v_failures st' = v_failures st @ F" and "list_all P F"
    and "v_warnings st' = v_warnings st @ W" and "list_all Q W"
proof -
  from assms have "v_failures st' = v_failures st @ drop (length (v_failures st)) (v_failures st')"
    and "v_warnings st' = v_warnings st @ drop (length (v_warnings st)) (v_warnings st')"
    by (simp_all add: grows_def) (metis append_take_drop_id)+
  with assms that show thesis by (simp add: grows_def)
qed

lemma grows_refl [simp]: "grows P Q st st"
  by (simp add: grows_def)

lemma grows_trans:
  assumes "grows P Q a b" and "grows P Q b c"
  shows "grows P Q a c"
proof -
  from assms(1) obtain F W where 1: "v_failures b = v_failures a @ F" "list_all P F"
    "v_warnings b = v_warnings a @ W" "list_all Q W" by (rule growsE)
  from assms(2) obtain F' W' where 2: "v_failures c = v_failures b @ F'" "list_all P F'"
    "v_warnings c = v_warnings b @ W'" "list_all Q W'" by (rule growsE)
  show ?thesis
    by (rule growsI [of _ _ "F @ F'" _ "W @ W'"]) (simp_all add: 1 2)
qed

lemma grows_mono:
  assumes "grows P Q a b" and "\<And>f. P f \<Longrightarrow> P' f" and "\<And>w. Q w \<Longrightarrow> Q' w"
  shows "grows P' Q' a b"
  using assms by (auto simp: grows_def list_all_iff)

lemma grows_pushFailure: "P f \<Longrightarrow> grows P Q st (pushFailure f st)"
  by (simp add: grows_def pushFailure_def)

lemma grows_pushWarning: "Q w \<Longrightarrow> grows P Q st (pushWarning w st)"
  by (simp add: grows_def pushWarning_def)

lemma grows_same:
  "v_failures st' = v_failures st \<Longrightarrow> v_warnings st' = v_warnings st \<Longrightarrow> grows P Q st st'"
  by (simp add: grows_def)

lemma foldE_grows:
  assumes "\<And>x a b. f x a = Inr b \<Longrightarrow> grows P Q (g a) (g b)"
  shows "foldE f xs s = Inr s' \<Longrightarrow> grows P Q (g s) (g s')"
proof (induction xs arbitrary: s)
  case Nil
  then show ?case by simp
next
  case (Cons x xs)
  then obtain m where m: "f x s = Inr m" and r: "foldE f xs m = Inr s'"
    by (auto split: sum.splits)
  from grows_trans [OF assms [OF m] Cons.IH [OF r]] show ?case .
qed

lemma startCheck_grows:
  assumes "\<And>b. operation st = Inr b \<Longrightarrow> grows P Q st b"
  shows "startCheck chk operation status st = Inr st' \<Longrightarrow> grows P Q st st'"
proof -
  assume "startCheck chk operation status st = Inr st'"
  then obtain b where b: "operation st = Inr b"
    and st': "st' = b\<lparr>v_checks := v_checks b @ [\<lparr>check_id = chk, check_status = status b\<rparr>]\<rparr>"
    by (auto simp: startCheck_def bindE_def split: sum.splits)
  have "grows P Q b st'" by (rule grows_same) (simp_all add: st')
  from grows_trans [OF assms [OF b] this] show ?thesis .
qed

lemma failure_code_failure [simp]: "failure_code (failure c sev chk e a) = c"
  and verification_step_failure [simp]: "verification_step (failure c sev chk e a) = chk"
  and f_severity_failure [simp]: "f_severity (failure c sev chk e a) = sev"
  by (simp_all add: failure_def)

lemma chkSchemaConformance_grows:
  assumes "chkSchemaConformance traceId events st = Inr st'"
  shows "grows (\<lambda>f. failure_code f \<noteq> SIG_INVALID) (\<lambda>w. False) st st'"
proof -
  have step: "schemaStep traceId x a = Inr b \<Longrightarrow>
      grows (\<lambda>f. failure_code f \<noteq> SIG_INVALID) (\<lambda>w. False) (snd a) (snd b)" for x a b
    by (cases a)
       (auto simp: schemaStep_def bindE_def Let_def split: sum.splits if_splits
          intro!: grows_pushFailure grows_trans [OF grows_pushFailure grows_pushFailure])
  have fold: "foldE (schemaStep traceId) events a = Inr b \<Longrightarrow>
      grows (\<lambda>f. failure_code f \<noteq> SIG_INVALID) (\<lambda>w. False) (snd a) (snd b)" for a b
    by (rule foldE_grows [where g = snd]) (rule step)
  show ?thesis
    using assms unfolding chkSchemaConformance_def
    by (rule startCheck_grows [rotated]) (auto simp: bindE_def split: sum.splits dest: fold)
qed

lemma chkEventHashIntegrity_grows:
  assumes "chkEventHashIntegrity h events st = Inr st'"
  shows "grows (\<lambda>f. failure_code f \<noteq> SIG_INVALID) (\<lambda>w. False) st st'"
proof -
  have step: "hashStep h x a = Inr b \<Longrightarrow>
      grows (\<lambda>f. failure_code f \<noteq> SIG_INVALID) (\<lambda>w. False) a b" for x a b
    by (auto simp: hashStep_def bindE_def split: sum.splits if_splits intro!: grows_pushFailure)
  show ?thesis
    using assms unfolding chkEventHashIntegrity_def
    by (rule startCheck_grows [rotated]) (rule foldE_grows [where g = "\<lambda>x. x", OF step])
qed

lemma chainLoop_grows:
  "chainLoop expectedPrev events st = Inr st' \<Longrightarrow>
   grows (\<lambda>f. failure_code f \<noteq> SIG_INVALID) (\<lambda>w. False) st st'"
  by (induction expectedPrev events st rule: chainLoop.induct)
     (auto split: sum.splits if_splits intro!: grows_pushFailure)

lemma chkChainContinuity_grows:
  assumes "chkChainContinuity events st = Inr st'"
  shows "grows (\<lambda>f. failure_code f \<noteq> SIG_INVALID) (\<lambda>w. False) st st'"
  using assms unfolding chkChainContinuity_def
  by (rule startCheck_grows [rotated]) (rule chainLoop_grows)

lemma chkKeyStatus_grows:
  assumes "chkKeyStatus ids events st = Inr st'"
  shows "grows (\<lambda>f. failure_code f \<noteq> SIG_INVALID) (\<lambda>w. False) st st'"
proof -
  have step: "keyStatusStep ids x a = Inr b \<Longrightarrow>
      grows (\<lambda>f. failure_code f \<noteq> SIG_INVALID) (\<lambda>w. False) a b" for x a b
    by (auto simp: keyStatusStep_def bindE_def split: sum.splits if_splits option.splits
        intro!: grows_pushFailure)
  show ?thesis
    using assms unfolding chkKeyStatus_def
    by (rule startCheck_grows [rotated]) (rule foldE_grows [where g = "\<lambda>x. x", OF step])
qed

lemma chkArtifactExistence_grows:
  assumes "chkArtifactExistence s events st = Inr st'"
  shows "grows (\<lambda>f. failure_code f \<noteq> SIG_INVALID) (\<lambda>w. False) st st'"
proof -
  have inner: "descriptorStep s e x a = Inr b \<Longrightarrow>
      grows (\<lambda>f. failure_code f \<noteq> SIG_INVALID) (\<lambda>w. False) a b" for e x a b
    by (auto simp: descriptorStep_def bindE_def split: sum.splits if_splits
        intro!: grows_pushFailure grows_same)
  have fold: "foldE (descriptorStep s e) xs a = Inr b \<Longrightarrow>
      grows (\<lambda>f. failure_code f \<noteq> SIG_INVALID) (\<lambda>w. False) a b" for e xs a b
    by (rule foldE_grows [where g = "\<lambda>x. x"]) (rule inner)
  have step: "artifactExistenceStep s x a = Inr b \<Longrightarrow>
      grows (\<lambda>f. failure_code f \<noteq> SIG_INVALID) (\<lambda>w. False) a b" for x a b
    by (auto simp: artifactExistenceStep_def bindE_def split: sum.splits dest: fold)
  show ?thesis
    using assms unfolding chkArtifactExistence_def
    by (rule startCheck_grows [rotated]) (rule foldE_grows [where g = "\<lambda>x. x", OF step])
qed

lemma chkArtifactHashMatch_grows:
  assumes "chkArtifactHashMatch h s st = Inr st'"
  shows "grows (\<lambda>f. failure_code f \<noteq> SIG_INVALID) (\<lambda>w. False) st st'"
proof -
  have step: "artifactHashStep h s x a = Inr b \<Longrightarrow>
      grows (\<lambda>f. failure_code f \<noteq> SIG_INVALID) (\<lambda>w. False) a b" for x a b
    by (auto simp: artifactHashStep_def readArtifact_def bindE_def
        split: sum.splits if_splits option.splits jsval.splits
        intro!: grows_pushFailure grows_same)
  show ?thesis
    using assms unfolding chkArtifactHashMatch_def
    by (rule startCheck_grows [rotated]) (rule foldE_grows [where g = "\<lambda>x. x", OF step])
qed

lemma chkRolePolicyConformance_grows:
  assumes "chkRolePolicyConformance events st = Inr st'"
  shows "grows (\<lambda>f. failure_code f \<noteq> SIG_INVALID) (\<lambda>w. False) st st'"
proof -
  have step: "rolePolicyStep x a = Inr b \<Longrightarrow>
      grows (\<lambda>f. failure_code f \<noteq> SIG_INVALID) (\<lambda>w. False) a b" for x a b
    by (auto simp: rolePolicyStep_def bindE_def split: sum.splits if_splits option.splits
        intro!: grows_pushFailure)
  show ?thesis
    using assms unfolding chkRolePolicyConformance_def
    by (rule startCheck_grows [rotated]) (rule foldE_grows [where g = "\<lambda>x. x", OF step])
qed

lemma claimStep_grows:
  "claimStep profile m x a = Inr b \<Longrightarrow>
   grows (\<lambda>f. failure_code f \<noteq> SIG_INVALID) (\<lambda>w. warning_code w = ''CLAIM_DISPUTED'') a b"
  unfolding claimStep_def bindE_def Let_def
  by (auto split: sum.splits if_splits option.splits
      intro!: grows_pushFailure grows_pushWarning
        grows_trans [OF grows_pushFailure grows_pushFailure]
        grows_trans [OF grows_pushFailure grows_pushWarning]
      simp: warning_def)

lemma foldE_claimStep_grows:
  "foldE (claimStep profile m) xs a = Inr b \<Longrightarrow>
   grows (\<lambda>f. failure_code f \<noteq> SIG_INVALID) (\<lambda>w. warning_code w = ''CLAIM_DISPUTED'') a b"
  by (rule foldE_grows [where g = "\<lambda>x. x"]) (rule claimStep_grows)

lemma chkClaimEvidenceSufficiency_grows:
  assumes "chkClaimEvidenceSufficiency profile events st = Inr st'"
  shows "grows (\<lambda>f. failure_code f \<noteq> SIG_INVALID) (\<lambda>w. warning_code w = ''CLAIM_DISPUTED'') st st'"
  using assms unfolding chkClaimEvidenceSufficiency_def
  by (rule startCheck_grows [rotated])
     (auto simp: bindE_def split: sum.splits dest: foldE_claimStep_grows)

lemma chkFinalizationIntegrity_grows:
  assumes "chkFinalizationIntegrity allow events st = Inr st'"
  shows "grows (\<lambda>f. failure_code f \<noteq> SIG_INVALID)
           (\<lambda>w. warning_code w = ''FINALIZATION_INCOMPLETE'') st st'"
proof -
  have op: "finalizationOperation allow events a = Inr b \<Longrightarrow>
      grows (\<lambda>f. failure_code f \<noteq> SIG_INVALID)
        (\<lambda>w. warning_code w = ''FINALIZATION_INCOMPLETE'') a b" for a b
    unfolding finalizationOperation_def bindE_def Let_def
    by (auto split: sum.splits if_splits option.splits
        simp: grows_def pushFailure_def pushWarning_def warning_def)
  show ?thesis
    using assms unfolding chkFinalizationIntegrity_def
    by (rule startCheck_grows [rotated]) (rule op)
qed

subsection \<open>The pipeline on the example traces\<close>

lemmas verifier_example_defs = bindE_def ownProp_def getOpt_def nullish_def show_int_def hex_digit_def escape_char_def quoteJSON_def sort_by_def canonicalNumber_def canonicalString_def sortEntries_def renderEntries_def canonicalObject_def emittedKeys_def lower_char_def asciiLetterCollate_def GENESIS_PREV_HASH_def SIGNATURE_ALGORITHM_def HASH_ALGORITHM_def SCHEMA_VERSION_def eventTypes_def requiredSignedEventTypes_def roles_def rolePolicy_def in_range_def is_digit_def is_ulid_char_def ULID_REGEX_def HEX_64_REGEX_def ISO_UTC_MS_REGEX_def ID_REGEX_def CLAIM_ID_REGEX_def zString_def zOptional_def zArray_def nonEmpty_def roleSchema_def eventTypeSchema_def actorSchema_def signatureSchema_def nonnegativeInt_def artifactDescriptorSchema_def protocolEventSchema_def is_space_def truncateSync_def readEvents_def jsAdd_def appendLocked_def appendEvent_def getTraceEvents_def getTraceEvent_def storageUri_def writeArtifact_def signedFields_def extractSignedPayload_def canonicalSignedBytes_def indexed_def computeEventHash_def hashCanonical_def signBytes_def verifyBytes_def unsignedFields_def buildSignedEvent_def initialState_def failure_def warning_def pushFailure_def pushWarning_def stepFailed_def startCheck_def failOrPass_def setHas_def setAdd_def hasString_def schemaStep_def chkSchemaConformance_def hashStep_def chkEventHashIntegrity_def chkChainContinuity_def resolveIdentityByKeyId_def resolvePublicKeyByKeyId_def signatureStep_def chkSignatureValidity_def jsGe_def keyStatusStep_def chkKeyStatus_def hasArtifact_def readArtifact_def descriptorStep_def artifactExistenceStep_def chkArtifactExistence_def artifactHashStep_def chkArtifactHashMatch_def mapGet_def challengeStep_def artifactHashes_def everyValid_def claimStep_def chkClaimEvidenceSufficiency_def rolePolicyStep_def objectPrototypeNames_def chkRolePolicyConformance_def finalizationOperation_def chkFinalizationIntegrity_def runChecks_def verificationStatusOf_def artifactReferenceCount_def verificationFailureSchema_def verificationWarningSchema_def verificationReportSchema_def verifyEvents_def verifyTrace_def failureCodes_def warningCodes_def stringifyJSON_def exampleDigest_def exampleSign_def exampleVerify_def exampleParse_def exampleHost_def exampleTraceId_def exampleNow_def exampleIdentity_def exampleActor_def exampleSession_def emptyHome_def exampleArtifactInput_def exampleHome_def descriptorJson_def exampleArtifact_def exampleClaimId_def exampleInput_def exampleEvent_def proposalEvent_def claimEvent_def finalEvent_def challengeEvent_def startedEvent_def completedEvent_def cleanTrace_def challengedTrace_def assignProp_def tamperedTrace_def exampleVerifyInput_def 

lemma exampleHome_identities: "identities exampleHome = map exampleIdentity roles"
  by (simp add: exampleHome_def writeArtifact_def Let_def emptyHome_def split: option.splits)

lemma exampleHome_blob_files:
  "blob_files exampleHome = [GENESIS_PREV_HASH \<mapsto> in_bytes exampleArtifactInput]"
  by (simp add: exampleHome_def writeArtifact_def Let_def emptyHome_def exampleHost_def
      exampleDigest_def split: option.splits)

lemma verifyEvents_cleanTrace:
  "map_sum id failures
     (verifyEvents exampleHost exampleHome exampleSession (exampleVerifyInput None) cleanTrace) = Inr []"
  unfolding verifyEvents_def runChecks_def exampleHome_identities
  by (simp add: verifier_example_defs canonicalize_canonicalText Let_def exampleHome_blob_files)

lemma verifyEvents_tamperedTrace:
  "map_sum id failures
     (verifyEvents exampleHost exampleHome exampleSession (exampleVerifyInput None) tamperedTrace) = Inr []"
  unfolding verifyEvents_def runChecks_def exampleHome_identities
  by (simp add: verifier_example_defs canonicalize_canonicalText Let_def exampleHome_blob_files)

subsection \<open>Payload mutation\<close>

lemma ownProp_assign:
  "k \<noteq> k' \<Longrightarrow> ownProp (map (\<lambda>kv. if fst kv = k' then (k', v) else kv) kvs) k = ownProp kvs k"
  by (induction kvs) (auto simp: ownProp_def)

lemma ownProp_append_other:
  "k \<noteq> k' \<Longrightarrow> ownProp (kvs @ [(k', v)]) k = ownProp kvs k"
  by (simp add: ownProp_def map_add_def split: option.splits)

lemma get_assignProp: "k \<noteq> k' \<Longrightarrow> get k (assignProp k' v e) = get k e"
  by (cases e) (simp_all add: assignProp_def ownProp_assign ownProp_append_other)

lemma getOpt_assignProp: "k \<noteq> k' \<Longrightarrow> getOpt k (assignProp k' v e) = getOpt k e"
  by (simp add: getOpt_def get_assignProp)

lemma canonicalSignedBytes_payload:
  "canonicalSignedBytes h (assignProp ''payload'' p e) = canonicalSignedBytes h e"
  by (simp add: canonicalSignedBytes_def extractSignedPayload_def signedFields_def get_assignProp)

lemma signatureStep_payload:
  "signatureStep h ids (assignProp ''payload'' p e) st = signatureStep h ids e st"
proof -
  have g: "get ''event_type'' (assignProp ''payload'' p e) = get ''event_type'' e"
    "get ''actor'' (assignProp ''payload'' p e) = get ''actor'' e"
    by (simp_all add: get_assignProp)
  have o: "getOpt ''signature'' (assignProp ''payload'' p e) = getOpt ''signature'' e"
    "getOpt ''event_id'' (assignProp ''payload'' p e) = getOpt ''event_id'' e"
    by (simp_all add: getOpt_assignProp)
  show ?thesis
    by (simp only: signatureStep_def g o canonicalSignedBytes_payload)
qed

lemma foldE_signatureStep_payload:
  "foldE (signatureStep h ids) (mutatePayload ty p events) st = foldE (signatureStep h ids) events st"
  by (induction events arbitrary: st) (auto simp: signatureStep_payload split: sum.splits)

lemma chkSignatureValidity_payload:
  "chkSignatureValidity h ids (mutatePayload ty p events) st = chkSignatureValidity h ids events st"
  by (simp add: chkSignatureValidity_def startCheck_def foldE_signatureStep_payload)

text \<open>What the signature check adds does not depend on the state it starts from.\<close>

lemma signatureStep_uniform:
  assumes "signatureStep h ids e st = Inr st'"
  shows "\<exists>F. v_failures st' = v_failures st @ F \<and> v_warnings st' = v_warnings st \<and>
           (\<forall>st2. \<exists>st2'. signatureStep h ids e st2 = Inr st2' \<and>
                v_failures st2' = v_failures st2 @ F \<and> v_warnings st2' = v_warnings st2)"
  using assms unfolding signatureStep_def bindE_def
  by (auto split: sum.splits if_splits option.splits simp: pushFailure_def)

lemma foldE_signatureStep_uniform:
  "foldE (signatureStep h ids) events st = Inr st' \<Longrightarrow>
   \<exists>F. v_failures st' = v_failures st @ F \<and> v_warnings st' = v_warnings st \<and>
      (\<forall>st2. \<exists>st2'. foldE (signatureStep h ids) events st2 = Inr st2' \<and>
           v_failures st2' = v_failures st2 @ F \<and> v_warnings st2' = v_warnings st2)"
proof (induction events arbitrary: st)
  case Nil
  then show ?case by simp
next
  case (Cons e es)
  then obtain m where m: "signatureStep h ids e st = Inr m"
    and r: "foldE (signatureStep h ids) es m = Inr st'"
    by (auto split: sum.splits)
  from signatureStep_uniform [OF m] obtain F where
    F: "v_failures m = v_failures st @ F" "v_warnings m = v_warnings st"
    "\<And>st2. \<exists>st2'. signatureStep h ids e st2 = Inr st2' \<and>
                v_failures st2' = v_failures st2 @ F \<and> v_warnings st2' = v_warnings st2"
    by blast
  from Cons.IH [OF r] obtain G where
    G: "v_failures st' = v_failures m @ G" "v_warnings st' = v_warnings m"
    "\<And>st2. \<exists>st2'. foldE (signatureStep h ids) es st2 = Inr st2' \<and>
                v_failures st2' = v_failures st2 @ G \<and> v_warnings st2' = v_warnings st2"
    by blast
  have "\<exists>st2'. foldE (signatureStep h ids) (e # es) st2 = Inr st2' \<and>
           v_failures st2' = v_failures st2 @ (F @ G) \<and> v_warnings st2' = v_warnings st2" for st2
  proof -
    from F(3) [of st2] obtain m2 where m2: "signatureStep h ids e st2 = Inr m2"
      "v_failures m2 = v_failures st2 @ F" "v_warnings m2 = v_warnings st2" by blast
    from G(3) [of m2] obtain r2 where r2: "foldE (signatureStep h ids) es m2 = Inr r2"
      "v_failures r2 = v_failures m2 @ G" "v_warnings r2 = v_warnings m2" by blast
    from m2 r2 show ?thesis by simp
  qed
  with F G show ?case by (intro exI [of _ "F @ G"]) simp
qed

lemma chkSignatureValidity_uniform:
  assumes "chkSignatureValidity h ids events st = Inr st'"
  shows "\<exists>F. v_failures st' = v_failures st @ F \<and> v_warnings st' = v_warnings st \<and>
      (\<forall>st2. \<exists>st2'. chkSignatureValidity h ids events st2 = Inr st2' \<and>
           v_failures st2' = v_failures st2 @ F \<and> v_warnings st2' = v_warnings st2)"
proof -
  from assms obtain m where m: "foldE (signatureStep h ids) events st = Inr m"
    and st': "v_failures st' = v_failures m" "v_warnings st' = v_warnings m"
    by (auto simp: chkSignatureValidity_def startCheck_def bindE_def split: sum.splits)
  from foldE_signatureStep_uniform [OF m] obtain F where
    F: "v_failures m = v_failures st @ F" "v_warnings m = v_warnings st"
    "\<And>st2. \<exists>st2'. foldE (signatureStep h ids) events st2 = Inr st2' \<and>
                v_failures st2' = v_failures st2 @ F \<and> v_warnings st2' = v_warnings st2"
    by blast
  have "\<exists>st2'. chkSignatureValidity h ids events st2 = Inr st2' \<and>
           v_failures st2' = v_failures st2 @ F \<and> v_warnings st2' = v_warnings st2" for st2
    using F(3) [of st2] by (auto simp: chkSignatureValidity_def startCheck_def bindE_def)
  with F st' show ?thesis by (intro exI [of _ F]) simp
qed

lemma runChecks_returns:
  assumes "runChecks h s traceId profile allow events = Inr st10"
  obtains st1 st2 st3 st4 st5 st6 st7 st8 st9 where
    "chkSchemaConformance traceId events initialState = Inr st1"
    "chkEventHashIntegrity h events st1 = Inr st2"
    "chkChainContinuity events st2 = Inr st3"
    "chkSignatureValidity h (identities s) events st3 = Inr st4"
    "chkKeyStatus (identities s) events st4 = Inr st5"
    "chkArtifactExistence s events st5 = Inr st6"
    "chkArtifactHashMatch h s st6 = Inr st7"
    "chkClaimEvidenceSufficiency profile events st7 = Inr st8"
    "chkRolePolicyConformance events st8 = Inr st9"
    "chkFinalizationIntegrity allow events st9 = Inr st10"
  using assms unfolding runChecks_def bindE_def
  by (auto split: sum.splits)

lemma grows_weaken:
  "grows P Q a b \<Longrightarrow> (\<And>f. P f \<Longrightarrow> P' f) \<Longrightarrow> grows P' (\<lambda>w. True) a b"
  by (auto simp: grows_def list_all_iff)

lemma grows_before_signatures:
  assumes "chkSchemaConformance traceId events st0 = Inr st1"
    "chkEventHashIntegrity h events st1 = Inr st2"
    "chkChainContinuity events st2 = Inr st3"
  shows "grows (\<lambda>f. failure_code f \<noteq> SIG_INVALID) (\<lambda>w. False) st0 st3"
  using chkSchemaConformance_grows [OF assms(1)] chkEventHashIntegrity_grows [OF assms(2)]
    chkChainContinuity_grows [OF assms(3)]
  by (blast intro: grows_trans)

lemma grows_after_signatures:
  assumes "chkKeyStatus ids events st4 = Inr st5"
    "chkArtifactExistence s events st5 = Inr st6"
    "chkArtifactHashMatch h s st6 = Inr st7"
    "chkClaimEvidenceSufficiency profile events st7 = Inr st8"
    "chkRolePolicyConformance events st8 = Inr st9"
    "chkFinalizationIntegrity allow events st9 = Inr st10"
  shows "grows (\<lambda>f. failure_code f \<noteq> SIG_INVALID) (\<lambda>w. True) st4 st10"
proof -
  note g = chkKeyStatus_grows [OF assms(1), THEN grows_weaken]
    chkArtifactExistence_grows [OF assms(2), THEN grows_weaken]
    chkArtifactHashMatch_grows [OF assms(3), THEN grows_weaken]
    chkClaimEvidenceSufficiency_grows [OF assms(4), THEN grows_weaken]
    chkRolePolicyConformance_grows [OF assms(5), THEN grows_weaken]
    chkFinalizationIntegrity_grows [OF assms(6), THEN grows_weaken]
  have a: "grows (\<lambda>f. failure_code f \<noteq> SIG_INVALID) (\<lambda>w. True) st4 st5" by (rule g(1)) simp
  have b: "grows (\<lambda>f. failure_code f \<noteq> SIG_INVALID) (\<lambda>w. True) st5 st6" by (rule g(2)) simp
  have c: "grows (\<lambda>f. failure_code f \<noteq> SIG_INVALID) (\<lambda>w. True) st6 st7" by (rule g(3)) simp
  have d: "grows (\<lambda>f. failure_code f \<noteq> SIG_INVALID) (\<lambda>w. True) st7 st8" by (rule g(4)) simp
  have e: "grows (\<lambda>f. failure_code f \<noteq> SIG_INVALID) (\<lambda>w. True) st8 st9" by (rule g(5)) simp
  have f: "grows (\<lambda>f. failure_code f \<noteq> SIG_INVALID) (\<lambda>w. True) st9 st10" by (rule g(6)) simp
  show ?thesis
    by (rule grows_trans [OF a grows_trans [OF b grows_trans [OF c grows_trans [OF d grows_trans [OF e f]]]]])
qed

lemma grows_failures_empty:
  "grows P Q a b \<Longrightarrow> v_failures b = [] \<Longrightarrow> v_failures a = []"
  by (erule growsE) simp

lemma grows_failures_from_empty:
  "grows P Q a b \<Longrightarrow> v_failures a = [] \<Longrightarrow> list_all P (v_failures b)"
  by (erule growsE) simp

lemma verifyEvents_returns:
  assumes "verifyEvents h s trace input events = Inr r"
  obtains profile st where
    "runChecks h s (vi_trace_id input) profile (allow_incomplete_finalization input) events = Inr st"
    "profile = (case vi_policy_profile input of None \<Rightarrow> ts_policy_profile trace | Some p \<Rightarrow> p)"
    "failures r = v_failures st" "warnings r = v_warnings st"
    "verification_status r = verificationStatusOf st"
    "verificationReportSchema r"
  using assms unfolding verifyEvents_def bindE_def Let_def
  by (auto split: sum.splits if_splits)

text \<open>
  Claim C1 says that replacing the \<^verbatim>\<open>payload\<close> of the \<^verbatim>\<open>proposal_created\<close> event of a
  trace that verifies cleanly makes the failure list contain SIG_INVALID. The signed
  fields hold \<^verbatim>\<open>payload_hash\<close> but not \<^verbatim>\<open>payload\<close>, and no check compares the two, so
  CHK_SIGNATURE_VALIDITY returns the same result on the mutated snapshot as on the
  original, from every state; and SIG_INVALID is added by no other check. Hence for every
  trace that verifies with no failure, every type of event and every new payload, the
  report on the mutated trace, when there is one, has no SIG_INVALID failure. (The
  mutation is seen by CHK_EVENT_HASH_INTEGRITY, as HASH_MISMATCH.)
\<close>

theorem payload_mutation_is_not_a_signature_failure:
  assumes "verifyEvents h s trace input events = Inr r" and "failures r = []"
  shows "chkSignatureValidity h ids (mutatePayload ty p events) st =
           chkSignatureValidity h ids events st \<and>
         \<not> (\<exists>r'. verifyEvents h s trace input (mutatePayload ty p events) = Inr r' \<and>
                 SIG_INVALID \<in> set (failureCodes r'))"
proof (intro conjI notI)
  show "chkSignatureValidity h ids (mutatePayload ty p events) st =
           chkSignatureValidity h ids events st"
    by (rule chkSignatureValidity_payload)
next
  assume "\<exists>r'. verifyEvents h s trace input (mutatePayload ty p events) = Inr r' \<and>
                 SIG_INVALID \<in> set (failureCodes r')"
  then obtain r' where r': "verifyEvents h s trace input (mutatePayload ty p events) = Inr r'"
    and sig: "SIG_INVALID \<in> set (failureCodes r')" by blast
  from assms(1) obtain profile st10 where
    run: "runChecks h s (vi_trace_id input) profile (allow_incomplete_finalization input) events = Inr st10"
    and f: "failures r = v_failures st10"
    by (rule verifyEvents_returns)
  from run obtain st3 st4 st5 st6 st7 st8 st9 where
    c4: "chkSignatureValidity h (identities s) events st3 = Inr st4" and
    c5: "chkKeyStatus (identities s) events st4 = Inr st5"
      "chkArtifactExistence s events st5 = Inr st6"
      "chkArtifactHashMatch h s st6 = Inr st7"
      "chkClaimEvidenceSufficiency profile events st7 = Inr st8"
      "chkRolePolicyConformance events st8 = Inr st9"
      "chkFinalizationIntegrity (allow_incomplete_finalization input) events st9 = Inr st10"
    by (rule runChecks_returns)
  from grows_after_signatures [OF c5] f assms(2) have e4: "v_failures st4 = []"
    by (auto dest: grows_failures_empty)
  from chkSignatureValidity_uniform [OF c4] obtain F where
    F: "v_failures st4 = v_failures st3 @ F"
    and u: "\<And>st2. \<exists>st2'. chkSignatureValidity h (identities s) events st2 = Inr st2' \<and>
           v_failures st2' = v_failures st2 @ F \<and> v_warnings st2' = v_warnings st2"
    by blast
  from F e4 have F0: "F = []" by simp
  from r' obtain profile' t10 where
    run': "runChecks h s (vi_trace_id input) profile' (allow_incomplete_finalization input)
             (mutatePayload ty p events) = Inr t10"
    and f': "failures r' = v_failures t10"
    by (rule verifyEvents_returns)
  from run' obtain t1 t2 t3 t4 t5 t6 t7 t8 t9 where
    d1: "chkSchemaConformance (vi_trace_id input) (mutatePayload ty p events) initialState = Inr t1"
      "chkEventHashIntegrity h (mutatePayload ty p events) t1 = Inr t2"
      "chkChainContinuity (mutatePayload ty p events) t2 = Inr t3" and
    d4: "chkSignatureValidity h (identities s) (mutatePayload ty p events) t3 = Inr t4" and
    d5: "chkKeyStatus (identities s) (mutatePayload ty p events) t4 = Inr t5"
      "chkArtifactExistence s (mutatePayload ty p events) t5 = Inr t6"
      "chkArtifactHashMatch h s t6 = Inr t7"
      "chkClaimEvidenceSufficiency profile' (mutatePayload ty p events) t7 = Inr t8"
      "chkRolePolicyConformance (mutatePayload ty p events) t8 = Inr t9"
      "chkFinalizationIntegrity (allow_incomplete_finalization input) (mutatePayload ty p events) t9 = Inr t10"
    by (rule runChecks_returns)
  from d4 u [of t3] F0 have t4: "v_failures t4 = v_failures t3" "v_warnings t4 = v_warnings t3"
    by (auto simp: chkSignatureValidity_payload)
  have a: "grows (\<lambda>f. failure_code f \<noteq> SIG_INVALID) (\<lambda>w. True) initialState t3"
    by (rule grows_weaken [OF grows_before_signatures [OF d1]]) simp
  have b: "grows (\<lambda>f. failure_code f \<noteq> SIG_INVALID) (\<lambda>w. True) t3 t4"
    by (rule grows_same) (simp_all add: t4)
  have "list_all (\<lambda>f. failure_code f \<noteq> SIG_INVALID) (v_failures t10)"
    by (rule grows_failures_from_empty
          [OF grows_trans [OF a grows_trans [OF b grows_after_signatures [OF d5]]]])
       (simp add: initialState_def)
  with sig f' show False
    by (auto simp: failureCodes_def list_all_iff)
qed

theorem payload_mutation_is_not_a_signature_failure_witness:
  "(\<exists>r. verifyEvents exampleHost exampleHome exampleSession (exampleVerifyInput None) cleanTrace = Inr r \<and>
        failures r = []) \<and>
   (\<exists>r'. verifyEvents exampleHost exampleHome exampleSession (exampleVerifyInput None) tamperedTrace = Inr r') \<and>
   \<not> (\<exists>r'. verifyEvents exampleHost exampleHome exampleSession (exampleVerifyInput None) tamperedTrace = Inr r' \<and>
           SIG_INVALID \<in> set (failureCodes r'))"
proof -
  from verifyEvents_cleanTrace obtain r where
    r: "verifyEvents exampleHost exampleHome exampleSession (exampleVerifyInput None) cleanTrace = Inr r"
      "failures r = []"
    by (cases "verifyEvents exampleHost exampleHome exampleSession (exampleVerifyInput None) cleanTrace")
       auto
  from verifyEvents_tamperedTrace obtain r' where
    r': "verifyEvents exampleHost exampleHome exampleSession (exampleVerifyInput None) tamperedTrace = Inr r'"
    by (cases "verifyEvents exampleHost exampleHome exampleSession (exampleVerifyInput None) tamperedTrace")
       auto
  from payload_mutation_is_not_a_signature_failure
         [OF r, of "[]" "''proposal_created''" "JObj [(''tampered'', JBool True)]" initialState]
  have "\<not> (\<exists>r'. verifyEvents exampleHost exampleHome exampleSession (exampleVerifyInput None) tamperedTrace = Inr r' \<and>
           SIG_INVALID \<in> set (failureCodes r'))"
    by (simp add: tamperedTrace_def)
  with r r' show ?thesis by blast
qed

subsection \<open>Disputed claims under the strict and the default profile\<close>

lemma disputeFailure_warning:
  "disputeFailure (warning code sev e) = failure CLAIM_UNPROVEN High CHK_CLAIM_EVIDENCE_SUFFICIENCY e JUndefined"
  by (simp add: disputeFailure_def warning_def failure_def)

lemma bindE_map_sum:
  "m = m' \<Longrightarrow> (\<And>v. f v = map_sum id g (f' v)) \<Longrightarrow> bindE m f = map_sum id g (bindE m' f')"
  by (cases m) (auto simp: bindE_def)

lemma if_map_sum:
  "c = c' \<Longrightarrow> (c \<Longrightarrow> a = map_sum id g a') \<Longrightarrow> (\<not> c \<Longrightarrow> b = map_sum id g b') \<Longrightarrow>
   (if c then a else b) = map_sum id g (if c' then a' else b')"
  by simp

lemma option_case_map_sum:
  "x = x' \<Longrightarrow> (x = None \<Longrightarrow> a = map_sum id g a') \<Longrightarrow>
   (\<And>y. x = Some y \<Longrightarrow> b y = map_sum id g (b' y)) \<Longrightarrow>
   (case x of None \<Rightarrow> a | Some y \<Rightarrow> b y) = map_sum id g (case x' of None \<Rightarrow> a' | Some y \<Rightarrow> b' y)"
  by (cases x) auto

text \<open>
  A step of the claim check reads of the state only the two sets of valid ids, and
  pushes to the failures and the warnings: its result from a state is its result from
  the state with nothing else in it, added to the lists.
\<close>

lemma claimStep_uniform:
  "claimStep profile m e st =
     map_sum id
       (\<lambda>d. st\<lparr>v_failures := v_failures st @ v_failures d,
               v_warnings := v_warnings st @ v_warnings d\<rparr>)
       (claimStep profile m e
          \<lparr>v_failures = [], v_warnings = [], v_checks = [],
           signatureValidEvents = signatureValidEvents st, existingArtifacts = [],
           artifactHashValid = artifactHashValid st\<rparr>)"
  unfolding claimStep_def Let_def
  by (intro bindE_map_sum if_map_sum option_case_map_sum)
     (simp_all add: pushFailure_def pushWarning_def)

text \<open>
  Under the strict profile a step gives what it gives under the default profile, with
  the warning it pushed, if any, turned into the failure of the dispute.
\<close>

lemma claimStep_Strict:
  "claimStep Strict m e st =
     map_sum id
       (\<lambda>d. d\<lparr>v_failures := v_failures d @
                             map disputeFailure (drop (length (v_warnings st)) (v_warnings d)),
               v_warnings := v_warnings st\<rparr>)
       (claimStep Default m e st)"
  unfolding claimStep_def Let_def
  apply (simp only: policy_profile.simps if_True if_False refl)
  apply (intro bindE_map_sum if_map_sum option_case_map_sum)
  apply (simp_all add: pushFailure_def pushWarning_def disputeFailure_warning)
  done

lemma grows_no_failure:
  assumes "grows P Q a b" and "grows P Q b c" and "v_failures c = v_failures a"
  shows "v_failures b = v_failures a"
proof -
  from assms(1) obtain F where F: "v_failures b = v_failures a @ F" by (auto elim: growsE)
  from assms(2) obtain G where G: "v_failures c = v_failures b @ G" by (auto elim: growsE)
  from F G assms(3) show ?thesis by simp
qed

lemma claimStep_profiles:
  assumes d: "claimStep Default m e sd = Inr sd'" and nf: "v_failures sd' = v_failures sd"
    and sv: "signatureValidEvents ss = signatureValidEvents sd"
    and hv: "artifactHashValid ss = artifactHashValid sd"
  shows "\<exists>W. v_warnings sd' = v_warnings sd @ W \<and>
           signatureValidEvents sd' = signatureValidEvents sd \<and>
           artifactHashValid sd' = artifactHashValid sd \<and>
           claimStep Strict m e ss = Inr (ss\<lparr>v_failures := v_failures ss @ map disputeFailure W\<rparr>)"
proof -
  let ?base = "\<lparr>v_failures = [], v_warnings = [], v_checks = [],
           signatureValidEvents = signatureValidEvents sd, existingArtifacts = [],
           artifactHashValid = artifactHashValid sd\<rparr>"
  from d claimStep_uniform [of Default m e sd] obtain d0 where
    d0: "claimStep Default m e ?base = Inr d0"
    and sd': "sd' = sd\<lparr>v_failures := v_failures sd @ v_failures d0,
                        v_warnings := v_warnings sd @ v_warnings d0\<rparr>"
    by (cases "claimStep Default m e ?base") auto
  from sd' nf have f0: "v_failures d0 = []" by simp
  have s0: "claimStep Strict m e ?base =
      Inr (d0\<lparr>v_failures := map disputeFailure (v_warnings d0), v_warnings := []\<rparr>)"
    using claimStep_Strict [of m e ?base] d0 f0 by simp
  have "claimStep Strict m e ss =
      Inr (ss\<lparr>v_failures := v_failures ss @ map disputeFailure (v_warnings d0)\<rparr>)"
    using claimStep_uniform [of Strict m e ss] s0 by (simp add: sv hv)
  with sd' show ?thesis by (intro exI [of _ "v_warnings d0"]) simp
qed

lemma foldE_claimStep_profiles:
  assumes "foldE (claimStep Default m) es sd = Inr sd'" and "v_failures sd' = v_failures sd"
    and "signatureValidEvents ss = signatureValidEvents sd"
    and "artifactHashValid ss = artifactHashValid sd"
  shows "\<exists>W. v_warnings sd' = v_warnings sd @ W \<and>
           foldE (claimStep Strict m) es ss =
             Inr (ss\<lparr>v_failures := v_failures ss @ map disputeFailure W\<rparr>)"
  using assms
proof (induction es arbitrary: sd ss)
  case Nil
  then show ?case by simp
next
  case (Cons e es)
  from Cons.prems(1) obtain mid where mid: "claimStep Default m e sd = Inr mid"
    and rest: "foldE (claimStep Default m) es mid = Inr sd'"
    by (auto split: sum.splits)
  have nf: "v_failures mid = v_failures sd"
    by (rule grows_no_failure [OF claimStep_grows [OF mid] foldE_claimStep_grows [OF rest] Cons.prems(2)])
  from claimStep_profiles [OF mid nf Cons.prems(3) Cons.prems(4)] obtain W1 where
    W1: "v_warnings mid = v_warnings sd @ W1"
    "signatureValidEvents mid = signatureValidEvents sd"
    "artifactHashValid mid = artifactHashValid sd"
    "claimStep Strict m e ss = Inr (ss\<lparr>v_failures := v_failures ss @ map disputeFailure W1\<rparr>)"
    by blast
  let ?ss1 = "ss\<lparr>v_failures := v_failures ss @ map disputeFailure W1\<rparr>"
  have "\<exists>W. v_warnings sd' = v_warnings mid @ W \<and>
           foldE (claimStep Strict m) es ?ss1 =
             Inr (?ss1\<lparr>v_failures := v_failures ?ss1 @ map disputeFailure W\<rparr>)"
    by (rule Cons.IH [OF rest]) (simp_all add: nf Cons.prems W1)
  then obtain W2 where W2: "v_warnings sd' = v_warnings mid @ W2"
    "foldE (claimStep Strict m) es ?ss1 =
       Inr (?ss1\<lparr>v_failures := v_failures ?ss1 @ map disputeFailure W2\<rparr>)"
    by blast
  show ?case
    using W1 W2 by (intro exI [of _ "W1 @ W2"]) simp
qed

lemma mapGet_JStr: "mapGet m (JStr c) = map_of m (JStr c)"
  by (induction m) (auto simp: mapGet_def strictEq_JStr)

lemma map_of_mapSet: "map_of (mapSet k v m) = (map_of m)(k \<mapsto> v)"
  by (induction m) auto

lemma getOpt_JStr_get: "getOpt k v = JStr t \<Longrightarrow> get k v = Inr (JStr t)"
  by (cases "get k v") (auto simp: getOpt_def)

lemma get_JStr_object: "get k e = Inr (JStr t) \<Longrightarrow> k \<noteq> ''length'' \<Longrightarrow> \<exists>kvs. e = JObj kvs"
  by (cases e) (auto split: if_splits)

lemma challengeStep_result:
  assumes "challengeStep e m = Inr m'"
  shows "m' = m \<or> (\<exists>c kvs. e = JObj kvs \<and> m' = mapSet c e m)"
proof (cases "get ''event_type'' e")
  case (Inl x)
  with assms show ?thesis by (simp add: challengeStep_def bindE_def)
next
  case (Inr ety)
  show ?thesis
  proof (cases "strictEq ety (JStr ''claim_challenged'')")
    case False
    with assms Inr show ?thesis by (simp add: challengeStep_def bindE_def)
  next
    case True
    then have "ety = JStr ''claim_challenged''" by (simp add: strictEq_JStr)
    with Inr get_JStr_object [of "''event_type''" e] obtain kvs where "e = JObj kvs" by auto
    with assms Inr True show ?thesis
      by (auto simp: challengeStep_def bindE_def split: sum.splits if_splits)
  qed
qed

lemma challengeStep_challenge:
  assumes "challengeStep ch m = Inr m'"
    and "getOpt ''event_type'' ch = JStr ''claim_challenged''"
    and "getOpt ''challenged_claim_id'' (getOpt ''payload'' ch) = JStr cid" and "cid \<noteq> []"
  shows "map_of m' (JStr cid) = Some ch"
proof -
  from assms(2) have et: "get ''event_type'' ch = Inr (JStr ''claim_challenged'')"
    by (rule getOpt_JStr_get)
  with get_JStr_object [of "''event_type''" ch] obtain kvs where ch: "ch = JObj kvs" by auto
  then have pl: "get ''payload'' ch = Inr (getOpt ''payload'' ch)" by (simp add: getOpt_def)
  from assms(3) have ci: "get ''challenged_claim_id'' (getOpt ''payload'' ch) = Inr (JStr cid)"
    by (rule getOpt_JStr_get)
  from assms(1) have "m' = mapSet (JStr cid) ch m"
    unfolding challengeStep_def by (simp add: et pl ci bindE_def assms(4))
  then show ?thesis by (simp add: map_of_mapSet)
qed

lemma foldE_challengeStep:
  assumes "foldE challengeStep es m0 = Inr m"
    and "\<forall>k v. map_of m0 k = Some v \<longrightarrow> truthy v"
  shows "(\<forall>k v. map_of m k = Some v \<longrightarrow> truthy v) \<and>
         (\<forall>k. map_of m0 k \<noteq> None \<longrightarrow> map_of m k \<noteq> None) \<and>
         (ch \<in> set es \<longrightarrow> getOpt ''event_type'' ch = JStr ''claim_challenged'' \<longrightarrow>
            getOpt ''challenged_claim_id'' (getOpt ''payload'' ch) = JStr cid \<longrightarrow> cid \<noteq> [] \<longrightarrow>
            map_of m (JStr cid) \<noteq> None)"
  using assms
proof (induction es arbitrary: m0)
  case Nil
  then show ?case by auto
next
  case (Cons e es)
  from Cons.prems(1) obtain m1 where m1: "challengeStep e m0 = Inr m1"
    and rest: "foldE challengeStep es m1 = Inr m"
    by (auto split: sum.splits)
  from challengeStep_result [OF m1] have inv1: "\<forall>k v. map_of m1 k = Some v \<longrightarrow> truthy v"
    using Cons.prems(2) by (auto simp: map_of_mapSet split: if_splits)
  from challengeStep_result [OF m1] have keep1: "\<forall>k. map_of m0 k \<noteq> None \<longrightarrow> map_of m1 k \<noteq> None"
    by (auto simp: map_of_mapSet)
  note IH = Cons.IH [OF rest inv1]
  have "map_of m (JStr cid) \<noteq> None"
    if "e = ch" "getOpt ''event_type'' ch = JStr ''claim_challenged''"
      "getOpt ''challenged_claim_id'' (getOpt ''payload'' ch) = JStr cid" "cid \<noteq> []"
  proof -
    from challengeStep_challenge [OF m1 [unfolded that(1)] that(2) that(3) that(4)]
    have "map_of m1 (JStr cid) \<noteq> None" by simp
    with IH show ?thesis by blast
  qed
  with IH keep1 show ?case by auto
qed

lemma claimStep_disputed:
  assumes run: "claimStep Default m claim sd = Inr sd'" and nf: "v_failures sd' = v_failures sd"
    and ty: "getOpt ''event_type'' claim = JStr ''claim_issued''"
    and cid: "getOpt ''claim_id'' (getOpt ''payload'' claim) = JStr cid"
    and res: "getOpt ''resolved'' (getOpt ''payload'' claim) \<noteq> JBool True"
    and ch: "cid \<noteq> [] \<Longrightarrow> \<exists>ch. map_of m (JStr cid) = Some ch \<and> truthy ch"
  shows "cid \<noteq> [] \<and>
         (\<exists>ch. map_of m (JStr cid) = Some ch \<and>
            v_warnings sd' = v_warnings sd @ [warning ''CLAIM_DISPUTED'' Medium (getOpt ''event_id'' ch)])"
proof -
  from ty have et: "get ''event_type'' claim = Inr (JStr ''claim_issued'')"
    by (rule getOpt_JStr_get)
  with get_JStr_object [of "''event_type''" claim] obtain kvs where "claim = JObj kvs" by auto
  then have pl: "get ''payload'' claim = Inr (getOpt ''payload'' claim)" by (simp add: getOpt_def)
  from cid have ci: "get ''claim_id'' (getOpt ''payload'' claim) = Inr (JStr cid)"
    by (rule getOpt_JStr_get)
  have eq: "strictEq v (JBool True) \<longleftrightarrow> v = JBool True" for v by (cases v) auto
  from run nf have ne: "cid \<noteq> []"
    unfolding claimStep_def
    by (auto simp: et pl ci bindE_def Let_def nullish_def pushFailure_def split: sum.splits if_splits)
  from ch [OF ne] obtain c where c: "map_of m (JStr cid) = Some c" "truthy c" by blast
  from run nf have "v_warnings sd' = v_warnings sd @ [warning ''CLAIM_DISPUTED'' Medium (getOpt ''event_id'' c)]"
    unfolding claimStep_def
    by (auto simp: et pl ci bindE_def Let_def nullish_def pushFailure_def pushWarning_def
        mapGet_JStr c eq res split: sum.splits if_splits)
  with ne c show ?thesis by blast
qed

lemma foldE_claimStep_disputed:
  assumes "foldE (claimStep Default m) es sd = Inr sd'" and "v_failures sd' = v_failures sd"
    and "claim \<in> set es"
    and ty: "getOpt ''event_type'' claim = JStr ''claim_issued''"
    and cid: "getOpt ''claim_id'' (getOpt ''payload'' claim) = JStr cid"
    and res: "getOpt ''resolved'' (getOpt ''payload'' claim) \<noteq> JBool True"
    and ch: "cid \<noteq> [] \<Longrightarrow> \<exists>ch. map_of m (JStr cid) = Some ch \<and> truthy ch"
  shows "cid \<noteq> [] \<and>
         (\<exists>ch W. map_of m (JStr cid) = Some ch \<and> v_warnings sd' = v_warnings sd @ W \<and>
            warning ''CLAIM_DISPUTED'' Medium (getOpt ''event_id'' ch) \<in> set W)"
  using assms(1-3)
proof (induction es arbitrary: sd)
  case Nil
  then show ?case by simp
next
  case (Cons e es)
  from Cons.prems(1) obtain mid where mid: "claimStep Default m e sd = Inr mid"
    and rest: "foldE (claimStep Default m) es mid = Inr sd'"
    by (auto split: sum.splits)
  have nf: "v_failures mid = v_failures sd"
    by (rule grows_no_failure [OF claimStep_grows [OF mid] foldE_claimStep_grows [OF rest] Cons.prems(2)])
  from claimStep_grows [OF mid] obtain W1 where W1: "v_warnings mid = v_warnings sd @ W1"
    by (auto elim: growsE)
  from foldE_claimStep_grows [OF rest] obtain W2 where W2: "v_warnings sd' = v_warnings mid @ W2"
    by (auto elim: growsE)
  show ?case
  proof (cases "e = claim")
    case True
    from claimStep_disputed [OF mid [unfolded True] nf ty cid res ch] obtain c where
      c: "cid \<noteq> []" "map_of m (JStr cid) = Some c"
      "v_warnings mid = v_warnings sd @ [warning ''CLAIM_DISPUTED'' Medium (getOpt ''event_id'' c)]"
      by blast
    show ?thesis
      using c W2
      by (intro conjI exI [of _ c]
            exI [of _ "warning ''CLAIM_DISPUTED'' Medium (getOpt ''event_id'' c) # W2"]) simp_all
  next
    case False
    with Cons.prems(3) have "claim \<in> set es" by simp
    from Cons.IH [OF rest _ this] Cons.prems(2) nf obtain c W where
      c: "cid \<noteq> []" "map_of m (JStr cid) = Some c" "v_warnings sd' = v_warnings mid @ W"
      "warning ''CLAIM_DISPUTED'' Medium (getOpt ''event_id'' c) \<in> set W"
      by auto
    show ?thesis
      using c W1 by (intro conjI exI [of _ c] exI [of _ "W1 @ W"]) simp_all
  qed
qed

text \<open>What a check adds that does not depend on the state it starts from.\<close>

lemma foldE_uniform:
  assumes step: "\<And>x st st'. f x st = Inr st' \<Longrightarrow>
      \<exists>F W. v_failures st' = v_failures st @ F \<and> v_warnings st' = v_warnings st @ W \<and>
        (\<forall>st2. \<exists>st2'. f x st2 = Inr st2' \<and> v_failures st2' = v_failures st2 @ F \<and>
                      v_warnings st2' = v_warnings st2 @ W)"
  shows "foldE f xs st = Inr st' \<Longrightarrow>
      \<exists>F W. v_failures st' = v_failures st @ F \<and> v_warnings st' = v_warnings st @ W \<and>
        (\<forall>st2. \<exists>st2'. foldE f xs st2 = Inr st2' \<and> v_failures st2' = v_failures st2 @ F \<and>
                      v_warnings st2' = v_warnings st2 @ W)"
proof (induction xs arbitrary: st)
  case Nil
  then show ?case by simp
next
  case (Cons x xs)
  then obtain m where m: "f x st = Inr m" and r: "foldE f xs m = Inr st'"
    by (auto split: sum.splits)
  from step [OF m] obtain F W where
    F: "v_failures m = v_failures st @ F" "v_warnings m = v_warnings st @ W"
    "\<And>st2. \<exists>st2'. f x st2 = Inr st2' \<and> v_failures st2' = v_failures st2 @ F \<and>
                      v_warnings st2' = v_warnings st2 @ W"
    by blast
  from Cons.IH [OF r] obtain G V where
    G: "v_failures st' = v_failures m @ G" "v_warnings st' = v_warnings m @ V"
    "\<And>st2. \<exists>st2'. foldE f xs st2 = Inr st2' \<and> v_failures st2' = v_failures st2 @ G \<and>
                      v_warnings st2' = v_warnings st2 @ V"
    by blast
  have "\<exists>st2'. foldE f (x # xs) st2 = Inr st2' \<and> v_failures st2' = v_failures st2 @ (F @ G) \<and>
           v_warnings st2' = v_warnings st2 @ (W @ V)" for st2
  proof -
    from F(3) [of st2] obtain m2 where m2: "f x st2 = Inr m2"
      "v_failures m2 = v_failures st2 @ F" "v_warnings m2 = v_warnings st2 @ W" by blast
    from G(3) [of m2] obtain r2 where r2: "foldE f xs m2 = Inr r2"
      "v_failures r2 = v_failures m2 @ G" "v_warnings r2 = v_warnings m2 @ V" by blast
    from m2 r2 show ?thesis by simp
  qed
  with F G show ?case by (intro exI [of _ "F @ G"] exI [of _ "W @ V"]) simp
qed

lemma startCheck_uniform:
  assumes op: "\<And>st st'. operation st = Inr st' \<Longrightarrow>
      \<exists>F W. v_failures st' = v_failures st @ F \<and> v_warnings st' = v_warnings st @ W \<and>
        (\<forall>st2. \<exists>st2'. operation st2 = Inr st2' \<and> v_failures st2' = v_failures st2 @ F \<and>
                      v_warnings st2' = v_warnings st2 @ W)"
  shows "startCheck chk operation status st = Inr st' \<Longrightarrow>
      \<exists>F W. v_failures st' = v_failures st @ F \<and> v_warnings st' = v_warnings st @ W \<and>
        (\<forall>st2. \<exists>st2'. startCheck chk operation status st2 = Inr st2' \<and>
                      v_failures st2' = v_failures st2 @ F \<and> v_warnings st2' = v_warnings st2 @ W)"
proof -
  assume "startCheck chk operation status st = Inr st'"
  then obtain m where m: "operation st = Inr m"
    and st': "v_failures st' = v_failures m" "v_warnings st' = v_warnings m"
    by (auto simp: startCheck_def bindE_def split: sum.splits)
  from op [OF m] obtain F W where
    F: "v_failures m = v_failures st @ F" "v_warnings m = v_warnings st @ W"
    "\<And>st2. \<exists>st2'. operation st2 = Inr st2' \<and> v_failures st2' = v_failures st2 @ F \<and>
                      v_warnings st2' = v_warnings st2 @ W"
    by blast
  have "\<exists>st2'. startCheck chk operation status st2 = Inr st2' \<and>
           v_failures st2' = v_failures st2 @ F \<and> v_warnings st2' = v_warnings st2 @ W" for st2
    using F(3) [of st2] by (auto simp: startCheck_def bindE_def)
  with F st' show ?thesis by (intro exI [of _ F] exI [of _ W]) simp
qed

lemma chkRolePolicyConformance_uniform:
  "chkRolePolicyConformance events st = Inr st' \<Longrightarrow>
      \<exists>F W. v_failures st' = v_failures st @ F \<and> v_warnings st' = v_warnings st @ W \<and>
        (\<forall>st2. \<exists>st2'. chkRolePolicyConformance events st2 = Inr st2' \<and>
                      v_failures st2' = v_failures st2 @ F \<and> v_warnings st2' = v_warnings st2 @ W)"
  unfolding chkRolePolicyConformance_def
proof (rule startCheck_uniform, rule foldE_uniform)
  fix x st st'
  assume "rolePolicyStep x st = Inr st'"
  then show "\<exists>F W. v_failures st' = v_failures st @ F \<and> v_warnings st' = v_warnings st @ W \<and>
        (\<forall>st2. \<exists>st2'. rolePolicyStep x st2 = Inr st2' \<and> v_failures st2' = v_failures st2 @ F \<and>
                      v_warnings st2' = v_warnings st2 @ W)"
    unfolding rolePolicyStep_def bindE_def
    by (auto split: sum.splits if_splits option.splits simp: pushFailure_def)
qed

lemma chkFinalizationIntegrity_uniform:
  "chkFinalizationIntegrity allow events st = Inr st' \<Longrightarrow>
      \<exists>F W. v_failures st' = v_failures st @ F \<and> v_warnings st' = v_warnings st @ W \<and>
        (\<forall>st2. \<exists>st2'. chkFinalizationIntegrity allow events st2 = Inr st2' \<and>
                      v_failures st2' = v_failures st2 @ F \<and> v_warnings st2' = v_warnings st2 @ W)"
  unfolding chkFinalizationIntegrity_def
proof (rule startCheck_uniform)
  fix st st'
  assume run: "finalizationOperation allow events st = Inr st'"
  then obtain f c s where i: "findIndexFrom 0 ''final_statement_signed'' events = Inr f"
    "findIndexFrom 0 ''verification_run_completed'' events = Inr c"
    "findIndexFrom 0 ''verification_run_started'' events = Inr s"
    by (auto simp: finalizationOperation_def bindE_def split: sum.splits)
  from run show "\<exists>F W. v_failures st' = v_failures st @ F \<and> v_warnings st' = v_warnings st @ W \<and>
        (\<forall>st2. \<exists>st2'. finalizationOperation allow events st2 = Inr st2' \<and>
                      v_failures st2' = v_failures st2 @ F \<and> v_warnings st2' = v_warnings st2 @ W)"
    unfolding finalizationOperation_def
    by (auto simp: i bindE_def Let_def pushFailure_def pushWarning_def split: option.splits)
qed

lemma grows_no_warning: "grows P (\<lambda>w. False) a b \<Longrightarrow> v_warnings b = v_warnings a"
  by (erule growsE) (simp add: list_all_iff)

lemma grows_failures_prefix: "grows P Q a b \<Longrightarrow> v_failures b = [] \<Longrightarrow> v_failures a = []"
  by (erule growsE) simp

lemma warnings_before_claims:
  assumes "chkSchemaConformance traceId events st0 = Inr st1"
    "chkEventHashIntegrity h events st1 = Inr st2"
    "chkChainContinuity events st2 = Inr st3"
    "chkSignatureValidity h ids events st3 = Inr st4"
    "chkKeyStatus ids events st4 = Inr st5"
    "chkArtifactExistence s events st5 = Inr st6"
    "chkArtifactHashMatch h s st6 = Inr st7"
  shows "v_warnings st7 = v_warnings st0"
proof -
  from chkSignatureValidity_uniform [OF assms(4)] have "v_warnings st4 = v_warnings st3" by blast
  with grows_no_warning [OF chkSchemaConformance_grows [OF assms(1)]]
    grows_no_warning [OF chkEventHashIntegrity_grows [OF assms(2)]]
    grows_no_warning [OF chkChainContinuity_grows [OF assms(3)]]
    grows_no_warning [OF chkKeyStatus_grows [OF assms(5)]]
    grows_no_warning [OF chkArtifactExistence_grows [OF assms(6)]]
    grows_no_warning [OF chkArtifactHashMatch_grows [OF assms(7)]]
  show ?thesis by simp
qed

lemma chkClaimEvidenceSufficiency_profiles:
  assumes run: "chkClaimEvidenceSufficiency Default events st = Inr sd"
    and nf: "v_failures sd = v_failures st"
    and claim: "claim \<in> set events" "getOpt ''event_type'' claim = JStr ''claim_issued''"
      "getOpt ''claim_id'' (getOpt ''payload'' claim) = JStr claimId"
      "getOpt ''resolved'' (getOpt ''payload'' claim) \<noteq> JBool True"
    and challenge: "challenge \<in> set events"
      "getOpt ''event_type'' challenge = JStr ''claim_challenged''"
      "getOpt ''challenged_claim_id'' (getOpt ''payload'' challenge) = JStr claimId"
  shows "\<exists>W ss. v_warnings sd = v_warnings st @ W \<and>
           list_all (\<lambda>w. warning_code w = ''CLAIM_DISPUTED'') W \<and>
           list_ex (\<lambda>w. warning_code w = ''CLAIM_DISPUTED'' \<and> w_severity w = Medium) W \<and>
           chkClaimEvidenceSufficiency Strict events st = Inr ss \<and>
           v_failures ss = v_failures st @ map disputeFailure W \<and>
           v_warnings ss = v_warnings st"
proof -
  from run obtain m sd0 where m: "foldE challengeStep events [] = Inr m"
    and fold: "foldE (claimStep Default m) events st = Inr sd0"
    and sd: "v_failures sd = v_failures sd0" "v_warnings sd = v_warnings sd0"
    by (auto simp: chkClaimEvidenceSufficiency_def startCheck_def bindE_def split: sum.splits)
  have nf0: "v_failures sd0 = v_failures st" using nf sd by simp
  from foldE_challengeStep [OF m, of challenge claimId] challenge
  have ch: "claimId \<noteq> [] \<Longrightarrow> \<exists>ch. map_of m (JStr claimId) = Some ch \<and> truthy ch"
    by auto
  from foldE_claimStep_disputed [OF fold nf0 claim ch] obtain c W' where
    W': "v_warnings sd0 = v_warnings st @ W'"
    "warning ''CLAIM_DISPUTED'' Medium (getOpt ''event_id'' c) \<in> set W'"
    by blast
  from foldE_claimStep_profiles [OF fold nf0 refl refl] obtain W where
    W: "v_warnings sd0 = v_warnings st @ W"
    "foldE (claimStep Strict m) events st = Inr (st\<lparr>v_failures := v_failures st @ map disputeFailure W\<rparr>)"
    by blast
  from W(1) W'(1) have eq: "W' = W" by simp
  from foldE_claimStep_grows [OF fold] W(1) have all: "list_all (\<lambda>w. warning_code w = ''CLAIM_DISPUTED'') W"
    by (auto elim!: growsE)
  have ex: "list_ex (\<lambda>w. warning_code w = ''CLAIM_DISPUTED'' \<and> w_severity w = Medium) W"
    unfolding list_ex_iff
    by (rule bexI [of _ "warning ''CLAIM_DISPUTED'' Medium (getOpt ''event_id'' c)"])
       (use W'(2) eq in \<open>simp_all add: warning_def\<close>)
  obtain ss where ss: "chkClaimEvidenceSufficiency Strict events st = Inr ss"
    "v_failures ss = v_failures st @ map disputeFailure W" "v_warnings ss = v_warnings st"
    by (simp add: chkClaimEvidenceSufficiency_def startCheck_def bindE_def m W(2))
  from W(1) sd all ex ss show ?thesis by auto
qed

lemma verifyEvents_report:
  assumes "verifyEvents h s trace input events = Inr r" and "vi_policy_profile input = Some profile"
  obtains st where
    "runChecks h s (vi_trace_id input) profile (allow_incomplete_finalization input) events = Inr st"
    "failures r = v_failures st" "warnings r = v_warnings st"
    "r_schema_version r \<noteq> []" "ULID_REGEX (report_id r)" "ULID_REGEX (r_trace_id r)"
    "report_id r = vi_report_id input" "r_trace_id r = ts_trace_id trace"
    "r_schema_version r = ts_schema_version trace"
    "list_all verificationFailureSchema (v_failures st)"
    "list_all verificationWarningSchema (v_warnings st)"
    "verification_status r = verificationStatusOf st"
  using assms unfolding verifyEvents_def bindE_def Let_def
  by (auto simp: verificationReportSchema_def split: sum.splits if_splits)

lemma verifyEvents_of_runChecks:
  assumes "runChecks h s (vi_trace_id input) profile (allow_incomplete_finalization input) events = Inr st"
    and "vi_policy_profile input = Some profile"
    and "ts_schema_version trace \<noteq> []" "ULID_REGEX (vi_report_id input)" "ULID_REGEX (ts_trace_id trace)"
    and "list_all verificationFailureSchema (v_failures st)"
    and "list_all verificationWarningSchema (v_warnings st)"
  shows "\<exists>r. verifyEvents h s trace input events = Inr r \<and> failures r = v_failures st \<and>
           warnings r = v_warnings st \<and> verification_status r = verificationStatusOf st"
  using assms unfolding verifyEvents_def bindE_def Let_def
  by (simp add: verificationReportSchema_def)

lemma disputeFailure_schema:
  "verificationWarningSchema w \<Longrightarrow> verificationFailureSchema (disputeFailure w)"
  by (simp add: verificationWarningSchema_def verificationFailureSchema_def disputeFailure_def)

lemma verifyEvents_challengedTrace:
  "map_sum id failures
     (verifyEvents exampleHost exampleHome exampleSession (exampleVerifyInput (Some Default))
        challengedTrace) = Inr []"
  unfolding verifyEvents_def runChecks_def exampleHome_identities
  by (simp add: verifier_example_defs canonicalize_canonicalText Let_def exampleHome_blob_files)

text \<open>
  Claim C7. Take a snapshot that verifies under the default profile with no failure,
  with an issued claim (a \<^verbatim>\<open>claim_issued\<close> event whose payload carries the claim id and
  no \<^verbatim>\<open>resolved: true\<close>) and a \<^verbatim>\<open>claim_challenged\<close> event whose payload names that
  claim. Then the default report has a CLAIM_DISPUTED warning of severity medium and
  its verdict is pass-with-warnings; and under the strict profile the verifier returns a
  report too, with a CLAIM_UNPROVEN failure of severity high from
  CHK_CLAIM_EVIDENCE_SUFFICIENCY, no CLAIM_DISPUTED warning, and the verdict fail. The
  failures of the strict report are exactly the disputes the default report warns of.
\<close>

theorem disputed_claim_under_strict_and_default:
  assumes dflt: "verifyEvents h s trace (input\<lparr>vi_policy_profile := Some Default\<rparr>) events = Inr rd"
    and clean: "failures rd = []"
    and claim: "claim \<in> set events" "getOpt ''event_type'' claim = JStr ''claim_issued''"
      "getOpt ''claim_id'' (getOpt ''payload'' claim) = JStr claimId"
      "getOpt ''resolved'' (getOpt ''payload'' claim) \<noteq> JBool True"
    and challenge: "challenge \<in> set events"
      "getOpt ''event_type'' challenge = JStr ''claim_challenged''"
      "getOpt ''challenged_claim_id'' (getOpt ''payload'' challenge) = JStr claimId"
  shows "list_ex (\<lambda>w. warning_code w = ''CLAIM_DISPUTED'' \<and> w_severity w = Medium) (warnings rd) \<and>
         verification_status rd = VerdictPassWithWarnings \<and>
         (\<exists>rs. verifyEvents h s trace (input\<lparr>vi_policy_profile := Some Strict\<rparr>) events = Inr rs \<and>
               list_ex (\<lambda>f. failure_code f = CLAIM_UNPROVEN \<and> f_severity f = High \<and>
                            verification_step f = CHK_CLAIM_EVIDENCE_SUFFICIENCY) (failures rs) \<and>
               verification_status rs = VerdictFail \<and>
               \<not> list_ex (\<lambda>w. warning_code w = ''CLAIM_DISPUTED'') (warnings rs) \<and>
               failures rs =
                 map disputeFailure (filter (\<lambda>w. warning_code w = ''CLAIM_DISPUTED'') (warnings rd)))"
proof -
  let ?tid = "vi_trace_id input" and ?allow = "allow_incomplete_finalization input"
  from verifyEvents_report [OF dflt, of Default] obtain st10 where
    run: "runChecks h s ?tid Default ?allow events = Inr st10"
    and rd: "failures rd = v_failures st10" "warnings rd = v_warnings st10"
      "verification_status rd = verificationStatusOf st10"
    and sch: "ts_schema_version trace \<noteq> []" "ULID_REGEX (vi_report_id input)"
      "ULID_REGEX (ts_trace_id trace)"
      "list_all verificationWarningSchema (v_warnings st10)"
    by auto
  from run obtain st1 st2 st3 st4 st5 st6 st7 st8 st9 where
    c1: "chkSchemaConformance ?tid events initialState = Inr st1"
      "chkEventHashIntegrity h events st1 = Inr st2"
      "chkChainContinuity events st2 = Inr st3"
      "chkSignatureValidity h (identities s) events st3 = Inr st4"
      "chkKeyStatus (identities s) events st4 = Inr st5"
      "chkArtifactExistence s events st5 = Inr st6"
      "chkArtifactHashMatch h s st6 = Inr st7" and
    c8: "chkClaimEvidenceSufficiency Default events st7 = Inr st8" and
    c9: "chkRolePolicyConformance events st8 = Inr st9" and
    c10: "chkFinalizationIntegrity ?allow events st9 = Inr st10"
    by (rule runChecks_returns)
  have f10: "v_failures st10 = []" using clean rd by simp
  have f9: "v_failures st9 = []"
    by (rule grows_failures_prefix [OF chkFinalizationIntegrity_grows [OF c10] f10])
  have f8: "v_failures st8 = []"
    by (rule grows_failures_prefix [OF chkRolePolicyConformance_grows [OF c9] f9])
  have f7: "v_failures st7 = []"
    by (rule grows_failures_prefix [OF chkClaimEvidenceSufficiency_grows [OF c8] f8])
  have w7: "v_warnings st7 = []"
    using warnings_before_claims [OF c1] by (simp add: initialState_def)
  from chkClaimEvidenceSufficiency_profiles [OF c8 _ claim challenge] f7 f8 w7
  obtain W ss8 where
    W: "v_warnings st8 = W" "list_all (\<lambda>w. warning_code w = ''CLAIM_DISPUTED'') W"
      "list_ex (\<lambda>w. warning_code w = ''CLAIM_DISPUTED'' \<and> w_severity w = Medium) W" and
    s8: "chkClaimEvidenceSufficiency Strict events st7 = Inr ss8"
      "v_failures ss8 = map disputeFailure W" "v_warnings ss8 = []"
    by auto
  have w9: "v_warnings st9 = v_warnings st8"
    by (rule grows_no_warning [OF chkRolePolicyConformance_grows [OF c9]])
  from chkRolePolicyConformance_uniform [OF c9] f8 f9 w9 obtain ss9 where
    s9: "chkRolePolicyConformance events ss8 = Inr ss9"
      "v_failures ss9 = v_failures ss8" "v_warnings ss9 = v_warnings ss8"
    by fastforce
  from chkFinalizationIntegrity_grows [OF c10] obtain W10 where
    W10: "v_warnings st10 = v_warnings st9 @ W10"
      "list_all (\<lambda>w. warning_code w = ''FINALIZATION_INCOMPLETE'') W10"
    by (auto elim!: growsE)
  from chkFinalizationIntegrity_uniform [OF c10] f9 f10 W10(1) obtain ss10 where
    s10: "chkFinalizationIntegrity ?allow events ss9 = Inr ss10"
      "v_failures ss10 = v_failures ss9" "v_warnings ss10 = v_warnings ss9 @ W10"
    by fastforce
  have runs: "runChecks h s ?tid Strict ?allow events = Inr ss10"
    by (simp add: runChecks_def bindE_def c1 s8 s9 s10)
  have fs: "v_failures ss10 = map disputeFailure W" and ws: "v_warnings ss10 = W10"
    using s8 s9 s10 by simp_all
  have wd: "v_warnings st10 = W @ W10" using W10(1) w9 W(1) by simp
  from sch(4) wd have schW: "list_all verificationWarningSchema W"
    and schW10: "list_all verificationWarningSchema W10" by simp_all
  have schF: "list_all verificationFailureSchema (v_failures ss10)"
    using schW by (simp add: fs list_all_iff disputeFailure_schema)
  from verifyEvents_of_runChecks [of h s "input\<lparr>vi_policy_profile := Some Strict\<rparr>" Strict events ss10 trace]
    runs sch(1-3) schF schW10 ws
  obtain rs where rs: "verifyEvents h s trace (input\<lparr>vi_policy_profile := Some Strict\<rparr>) events = Inr rs"
    "failures rs = v_failures ss10" "warnings rs = v_warnings ss10"
    "verification_status rs = verificationStatusOf ss10"
    by auto
  from W(3) have Wne: "W \<noteq> []" by auto
  have a: "list_ex (\<lambda>w. warning_code w = ''CLAIM_DISPUTED'' \<and> w_severity w = Medium) (warnings rd)"
    using W(3) by (simp add: rd wd)
  have b: "verification_status rd = VerdictPassWithWarnings"
    using f10 Wne by (simp add: rd verificationStatusOf_def wd)
  have c: "list_ex (\<lambda>f. failure_code f = CLAIM_UNPROVEN \<and> f_severity f = High \<and>
                            verification_step f = CHK_CLAIM_EVIDENCE_SUFFICIENCY) (failures rs)"
    using Wne by (cases W) (simp_all add: rs fs disputeFailure_def)
  have d: "verification_status rs = VerdictFail"
    using Wne by (simp add: rs fs verificationStatusOf_def)
  have e: "\<not> list_ex (\<lambda>w. warning_code w = ''CLAIM_DISPUTED'') (warnings rs)"
    using W10(2) by (auto simp: rs ws list_ex_iff list_all_iff)
  have "filter (\<lambda>w. warning_code w = ''CLAIM_DISPUTED'') W10 = []"
    using W10(2) by (auto simp: filter_empty_conv list_all_iff)
  moreover have "filter (\<lambda>w. warning_code w = ''CLAIM_DISPUTED'') W = W"
    using W(2) by (auto simp: filter_id_conv list_all_iff)
  ultimately have f: "failures rs =
      map disputeFailure (filter (\<lambda>w. warning_code w = ''CLAIM_DISPUTED'') (warnings rd))"
    by (simp add: rs fs rd wd)
  from a b rs(1) c d e f show ?thesis by blast
qed

theorem disputed_claim_under_strict_and_default_witness:
  "(\<exists>rd. verifyEvents exampleHost exampleHome exampleSession (exampleVerifyInput (Some Default))
           challengedTrace = Inr rd \<and>
         failures rd = [] \<and>
         list_ex (\<lambda>w. warning_code w = ''CLAIM_DISPUTED'' \<and> w_severity w = Medium) (warnings rd) \<and>
         verification_status rd = VerdictPassWithWarnings) \<and>
   claimEvent \<in> set challengedTrace \<and>
   getOpt ''event_type'' claimEvent = JStr ''claim_issued'' \<and>
   getOpt ''claim_id'' (getOpt ''payload'' claimEvent) = JStr exampleClaimId \<and>
   getOpt ''resolved'' (getOpt ''payload'' claimEvent) \<noteq> JBool True \<and>
   challengeEvent \<in> set challengedTrace \<and>
   getOpt ''event_type'' challengeEvent = JStr ''claim_challenged'' \<and>
   getOpt ''challenged_claim_id'' (getOpt ''payload'' challengeEvent) = JStr exampleClaimId \<and>
   (\<exists>rs. verifyEvents exampleHost exampleHome exampleSession (exampleVerifyInput (Some Strict))
           challengedTrace = Inr rs \<and>
         list_ex (\<lambda>f. failure_code f = CLAIM_UNPROVEN \<and> f_severity f = High \<and>
                      verification_step f = CHK_CLAIM_EVIDENCE_SUFFICIENCY) (failures rs) \<and>
         verification_status rs = VerdictFail)"
proof -
  have i: "(exampleVerifyInput None)\<lparr>vi_policy_profile := Some Default\<rparr> = exampleVerifyInput (Some Default)"
    "(exampleVerifyInput None)\<lparr>vi_policy_profile := Some Strict\<rparr> = exampleVerifyInput (Some Strict)"
    by (simp_all add: exampleVerifyInput_def)
  from verifyEvents_challengedTrace obtain rd where
    rd: "verifyEvents exampleHost exampleHome exampleSession
           ((exampleVerifyInput None)\<lparr>vi_policy_profile := Some Default\<rparr>) challengedTrace = Inr rd"
      "failures rd = []"
    unfolding i
    by (cases "verifyEvents exampleHost exampleHome exampleSession (exampleVerifyInput (Some Default))
                 challengedTrace") auto
  have c: "claimEvent \<in> set challengedTrace"
    "getOpt ''event_type'' claimEvent = JStr ''claim_issued''"
    "getOpt ''claim_id'' (getOpt ''payload'' claimEvent) = JStr exampleClaimId"
    "getOpt ''resolved'' (getOpt ''payload'' claimEvent) \<noteq> JBool True"
    by (simp_all add: challengedTrace_def claimEvent_def exampleEvent_def getOpt_def ownProp_def)
  have d: "challengeEvent \<in> set challengedTrace"
    "getOpt ''event_type'' challengeEvent = JStr ''claim_challenged''"
    "getOpt ''challenged_claim_id'' (getOpt ''payload'' challengeEvent) = JStr exampleClaimId"
    by (simp_all add: challengedTrace_def challengeEvent_def exampleEvent_def getOpt_def ownProp_def)
  from disputed_claim_under_strict_and_default [OF rd c d] rd c d
  show ?thesis unfolding i by blast
qed

end
